theory Spec2Isabelle
  imports Complex_Main
begin

section \<open>Numbers\<close>

text \<open>
  The arrays of \<^verbatim>\<open>bekk_results.py\<close> hold IEEE doubles. The model keeps the special
  values a division can produce and computes exactly on the finite ones: no rounding, no
  overflow, and zero carries no sign (a quotient by zero takes the sign of its numerator).
  The stored inputs \<^verbatim>\<open>innov\<close> and \<^verbatim>\<open>hvar\<close> are finite numbers.
\<close>

datatype fl = Fin real | PInf | NInf | NaN

fun fneg :: "fl \<Rightarrow> fl" where
  "fneg (Fin a) = Fin (- a)"
| "fneg PInf = NInf"
| "fneg NInf = PInf"
| "fneg NaN = NaN"

fun fadd :: "fl \<Rightarrow> fl \<Rightarrow> fl" where
  "fadd (Fin a) (Fin b) = Fin (a + b)"
| "fadd NaN _ = NaN"
| "fadd _ NaN = NaN"
| "fadd PInf NInf = NaN"
| "fadd NInf PInf = NaN"
| "fadd PInf _ = PInf"
| "fadd _ PInf = PInf"
| "fadd NInf _ = NInf"
| "fadd _ NInf = NInf"

definition fsub :: "fl \<Rightarrow> fl \<Rightarrow> fl" where
  "fsub a b = fadd a (fneg b)"

fun fmul :: "fl \<Rightarrow> fl \<Rightarrow> fl" where
  "fmul (Fin a) (Fin b) = Fin (a * b)"
| "fmul NaN _ = NaN"
| "fmul _ NaN = NaN"
| "fmul PInf PInf = PInf"
| "fmul NInf NInf = PInf"
| "fmul PInf NInf = NInf"
| "fmul NInf PInf = NInf"
| "fmul PInf (Fin b) = (if b = 0 then NaN else if 0 < b then PInf else NInf)"
| "fmul NInf (Fin b) = (if b = 0 then NaN else if 0 < b then NInf else PInf)"
| "fmul (Fin a) PInf = (if a = 0 then NaN else if 0 < a then PInf else NInf)"
| "fmul (Fin a) NInf = (if a = 0 then NaN else if 0 < a then NInf else PInf)"

fun fdiv :: "fl \<Rightarrow> fl \<Rightarrow> fl" where
  "fdiv (Fin a) (Fin b) =
     (if b = 0 then (if a = 0 then NaN else if 0 < a then PInf else NInf)
      else Fin (a / b))"
| "fdiv NaN _ = NaN"
| "fdiv _ NaN = NaN"
| "fdiv (Fin a) PInf = Fin 0"
| "fdiv (Fin a) NInf = Fin 0"
| "fdiv PInf (Fin b) = (if 0 \<le> b then PInf else NInf)"
| "fdiv NInf (Fin b) = (if 0 \<le> b then NInf else PInf)"
| "fdiv PInf PInf = NaN"
| "fdiv PInf NInf = NaN"
| "fdiv NInf PInf = NaN"
| "fdiv NInf NInf = NaN"

text \<open>\<^verbatim>\<open>.sum()\<close> along an axis; the sum of no entries is \<^verbatim>\<open>0.0\<close>.\<close>

primrec fsum :: "fl list \<Rightarrow> fl" where
  "fsum [] = Fin 0"
| "fsum (v # vs) = fadd v (fsum vs)"

fun is_finite :: "fl \<Rightarrow> bool" where
  "is_finite (Fin a) = True"
| "is_finite PInf = False"
| "is_finite NInf = False"
| "is_finite NaN = False"

section \<open>Errors and arrays\<close>

datatype error = ValueError | TypeError | AttributeError | LinAlgError

text \<open>
  The array of weights is two-dimensional, with its column count kept beside the rows
  (an array of no rows still has a shape), except for \<^verbatim>\<open>np.array([])\<close>, which is the
  one-dimensional array of shape \<^verbatim>\<open>(0,)\<close>.
\<close>

datatype ndarray = Empty1 | Array2 nat "fl list list"

definition np_array :: "fl list list \<Rightarrow> ndarray" where
  "np_array out = (case out of [] \<Rightarrow> Empty1 | row # _ \<Rightarrow> Array2 (length row) out)"

section \<open>The results container\<close>

record opt_result =
  opt_x :: "real list option"
  opt_nit :: "int option"
  opt_fun :: "real option"

text \<open>
  \<^verbatim>\<open>innov\<close> is a list of rows; \<open>nstocks\<close> is \<^verbatim>\<open>innov.shape[1]\<close>, which the rows
  alone do not give when there is none; \<open>opt_method\<close> is the attribute \<^verbatim>\<open>method\<close>.
  A field the caller left out is \<open>None\<close>.
\<close>

record 'p results =
  innov :: "real list list"
  nstocks :: nat
  hvar :: "real list list list"
  var_target :: "real list list option"
  model :: "string option"
  restriction :: "string option"
  use_target :: "bool option"
  cfree :: "bool option"
  opt_method :: "string option"
  time_delta :: "real option"
  param_start :: "'p option"
  param_final :: "'p option"
  opt_out :: "opt_result option"

text \<open>
  \<^verbatim>\<open>BEKKResults(innov=..., hvar=...)\<close>: every argument of the constructor defaults to
  \<^verbatim>\<open>None\<close>.
\<close>

definition stored :: "real list list \<Rightarrow> nat \<Rightarrow> real list list list \<Rightarrow> 'p results" where
  "stored inn n hv =
     \<lparr>innov = inn, nstocks = n, hvar = hv, var_target = None, model = None,
      restriction = None, use_target = None, cfree = None, opt_method = None,
      time_delta = None, param_start = None, param_final = None, opt_out = None\<rparr>"

text \<open>
  Stored states at which the statements below are evaluated: the scenario of the
  specification, a state with correlated assets, one whose only matrix is singular, one
  with no observation and one whose only matrix is zero.
\<close>

definition scenario :: "unit results" where
  "scenario = stored [[1, 2]] 2 [[[2, 0], [0, 2]]]"

definition correlated :: "unit results" where
  "correlated = stored [[1, 2]] 2 [[[2, 1], [1, 3]]]"

definition degenerate :: "unit results" where
  "degenerate = stored [[1, 2]] 2 [[[1, 1], [1, 1]]]"

definition no_obs :: "unit results" where
  "no_obs = stored [] 2 []"

definition zero_variance :: "unit results" where
  "zero_variance = stored [[1, 2]] 2 [[[0, 0], [0, 0]]]"

text \<open>The shape invariant of the stored arrays: \<open>T \<times> N\<close> innovations, \<open>T\<close> matrices \<open>N \<times> N\<close>.\<close>

definition shape_ok :: "'p results \<Rightarrow> bool" where
  "shape_ok r \<longleftrightarrow>
     list_all (\<lambda>row. length row = nstocks r) (innov r) \<and>
     length (hvar r) = length (innov r) \<and>
     list_all (\<lambda>H. length H = nstocks r \<and> list_all (\<lambda>row. length row = nstocks r) H) (hvar r)"

section \<open>Portfolio weights\<close>

text \<open>\<^verbatim>\<open>np.ones_like(self.innov) / self.innov.shape[1]\<close>\<close>

definition weights_equal :: "'p results \<Rightarrow> ndarray" where
  "weights_equal r =
     Array2 (nstocks r)
       (map (map (\<lambda>_. fdiv (Fin 1) (Fin (real (nstocks r))))) (innov r))"

text \<open>
  \<^verbatim>\<open>np.linalg.solve\<close> belongs to numpy, not to this repository: the model takes the
  solver as a parameter, and a theorem that needs its contract at a matrix assumes it there.
\<close>

type_synonym solver = "real list list \<Rightarrow> real list \<Rightarrow> error + real list"

definition ones :: "nat \<Rightarrow> real list" where
  "ones n = replicate n 1"

text \<open>\<^verbatim>\<open>inv_hvar / inv_hvar.sum()\<close>\<close>

definition normalise :: "real list \<Rightarrow> fl list" where
  "normalise inv_hvar = map (\<lambda>v. fdiv (Fin v) (Fin (sum_list inv_hvar))) inv_hvar"

text \<open>The loop of \<^verbatim>\<open>weights_minvar\<close>; a failing solve leaves the loop as the exception does.\<close>

fun minvar_loop :: "solver \<Rightarrow> nat \<Rightarrow> fl list list \<Rightarrow> real list list list \<Rightarrow> error + fl list list" where
  "minvar_loop solve n out [] = Inr out"
| "minvar_loop solve n out (hvari # rest) =
     (case solve hvari (ones n) of
        Inl e \<Rightarrow> Inl e
      | Inr inv_hvar \<Rightarrow> minvar_loop solve n (out @ [normalise inv_hvar]) rest)"

definition weights_minvar :: "solver \<Rightarrow> 'p results \<Rightarrow> error + ndarray" where
  "weights_minvar solve r =
     (case minvar_loop solve (nstocks r) [] (hvar r) of
        Inl e \<Rightarrow> Inl e
      | Inr out \<Rightarrow> Inr (np_array out))"

text \<open>
  Every public method declares \<^verbatim>\<open>kind='equal'\<close>: the argument is \<open>None\<close> when the caller
  omits it and \<open>Some k\<close> when the caller passes the string \<open>k\<close>.
\<close>

definition kind_arg :: "string option \<Rightarrow> string" where
  "kind_arg kind = (case kind of None \<Rightarrow> ''equal'' | Some k \<Rightarrow> k)"

definition weights :: "solver \<Rightarrow> 'p results \<Rightarrow> string option \<Rightarrow> error + ndarray" where
  "weights solve r kind =
     (let k = kind_arg kind in
      if k = ''equal'' then Inr (weights_equal r)
      else if k = ''minvar'' then weights_minvar solve r
      else Inl ValueError)"

section \<open>Portfolio variances\<close>

text \<open>
  \<^verbatim>\<open>self.innov * weights\<close>. Against weights of the same shape the product is taken
  entry by entry. Against the array of shape \<^verbatim>\<open>(0,)\<close> the last axes are \<open>N\<close> and \<open>0\<close>,
  which broadcast (to no columns) only for \<open>N \<le> 1\<close>. Shapes that differ otherwise do not
  occur under \<open>shape_ok\<close> with a solver that returns \<open>N\<close> numbers; the model rejects them.
\<close>

definition mul_innov :: "'p results \<Rightarrow> ndarray \<Rightarrow> error + fl list list" where
  "mul_innov r w =
     (case w of
        Empty1 \<Rightarrow>
          if nstocks r \<le> 1 then Inr (replicate (length (innov r)) []) else Inl ValueError
      | Array2 n rows \<Rightarrow>
          if n = nstocks r \<and> length rows = length (innov r)
          then Inr (map2 (map2 (\<lambda>a v. fmul (Fin a) v)) (innov r) rows)
          else Inl ValueError)"

text \<open>\<^verbatim>\<open>(self.innov * weights).sum(1)\<close>\<close>

definition portf_rvar :: "solver \<Rightarrow> 'p results \<Rightarrow> string option \<Rightarrow> error + fl list" where
  "portf_rvar solve r kind =
     (case weights solve r (Some (kind_arg kind)) of
        Inl e \<Rightarrow> Inl e
      | Inr w \<Rightarrow>
          (case mul_innov r w of
             Inl e \<Rightarrow> Inl e
           | Inr prods \<Rightarrow> Inr (map fsum prods)))"

text \<open>
  \<^verbatim>\<open>((self.hvar.T * weights.T).sum(0) * weights.T).sum(0)\<close>, one observation at a time.
  \<^verbatim>\<open>hvar.T\<close> has shape \<open>(N, N, T)\<close> with \<^verbatim>\<open>hvar.T[j, i, t] = hvar[t, i, j]\<close>, and
  \<^verbatim>\<open>weights.T\<close> has shape \<open>(N, T)\<close> with \<^verbatim>\<open>weights.T[i, t] = weights[t, i]\<close>. Broadcasting
  aligns the trailing axes, so the product at \<open>[j, i, t]\<close> is
  \<^verbatim>\<open>hvar[t, i, j] * weights[t, i]\<close>; \<^verbatim>\<open>.sum(0)\<close> adds over \<open>j\<close>, the second product
  multiplies the entry \<open>[i, t]\<close> by \<^verbatim>\<open>weights[t, i]\<close> again, and the last \<^verbatim>\<open>.sum(0)\<close>
  adds over \<open>i\<close>.
\<close>

definition evar_obs :: "real list list \<Rightarrow> fl list \<Rightarrow> fl" where
  "evar_obs H w =
     fsum (map2 (\<lambda>Hrow wi. fmul (fsum (map (\<lambda>h. fmul (Fin h) wi) Hrow)) wi) H w)"

text \<open>
  Against the array of shape \<^verbatim>\<open>(0,)\<close> the last axes are \<open>T\<close> and \<open>0\<close>, which broadcast
  (to no observations) only for \<open>T \<le> 1\<close>.
\<close>

definition contract_hvar :: "'p results \<Rightarrow> ndarray \<Rightarrow> error + fl list" where
  "contract_hvar r w =
     (case w of
        Empty1 \<Rightarrow> if length (hvar r) \<le> 1 then Inr [] else Inl ValueError
      | Array2 n rows \<Rightarrow>
          if n = nstocks r \<and> length rows = length (hvar r)
          then Inr (map2 evar_obs (hvar r) rows)
          else Inl ValueError)"

definition portf_evar :: "solver \<Rightarrow> 'p results \<Rightarrow> string option \<Rightarrow> error + fl list" where
  "portf_evar solve r kind =
     (case weights solve r (Some (kind_arg kind)) of
        Inl e \<Rightarrow> Inl e
      | Inr w \<Rightarrow> contract_hvar r w)"

text \<open>
  The quadratic form \<open>w\<^sup>T H w\<close> in the words of the specification: the sum over all pairs
  \<open>i, j\<close> of \<open>w\<^sub>i \<sqdot> H[i, j] \<sqdot> w\<^sub>j\<close>. It is what \<^verbatim>\<open>portf_evar\<close> is compared with, not a
  part of the code.
\<close>

definition quad_form :: "real list list \<Rightarrow> fl list \<Rightarrow> fl" where
  "quad_form H w =
     fsum (map (\<lambda>i. fsum (map (\<lambda>j. fmul (fmul (w ! i) (Fin (H ! i ! j))) (w ! j))
       [0..<length w])) [0..<length w])"

text \<open>
  The words of the specification about a covariance matrix: the system \<open>H x = 1\<close> is
  \<open>mat_vec H x = ones N\<close>, and the matrix is symmetric and positive semidefinite.
\<close>

definition dot :: "real list \<Rightarrow> real list \<Rightarrow> real" where
  "dot u v = sum_list (map2 (*) u v)"

definition mat_vec :: "real list list \<Rightarrow> real list \<Rightarrow> real list" where
  "mat_vec H v = map (\<lambda>row. dot row v) H"



text \<open>A matrix is singular when it sends a vector other than zero to zero.\<close>

definition singular :: "real list list \<Rightarrow> bool" where
  "singular H \<longleftrightarrow>
     (\<exists>v. length v = length H \<and> v \<noteq> replicate (length H) 0
        \<and> mat_vec H v = replicate (length H) 0)"

text \<open>\<^verbatim>\<open>.mean()\<close>: the sum over the number of entries.\<close>

definition mean :: "fl list \<Rightarrow> fl" where
  "mean vs = fdiv (fsum vs) (Fin (real (length vs)))"

definition portf_mvar :: "solver \<Rightarrow> 'p results \<Rightarrow> string option \<Rightarrow> error + fl" where
  "portf_mvar solve r kind =
     (case portf_evar solve r (Some (kind_arg kind)) of
        Inl e \<Rightarrow> Inl e
      | Inr ev \<Rightarrow> Inr (mean ev))"

text \<open>
  \<^verbatim>\<open>self.portf_rvar(kind=kind) / self.portf_evar(kind=kind) - 1\<close>: two one-dimensional
  arrays, divided entry by entry with no test of the divisor.
\<close>

definition loss_var_ratio :: "solver \<Rightarrow> 'p results \<Rightarrow> string option \<Rightarrow> error + fl list" where
  "loss_var_ratio solve r kind =
     (case portf_rvar solve r (Some (kind_arg kind)) of
        Inl e \<Rightarrow> Inl e
      | Inr rv \<Rightarrow>
          (case portf_evar solve r (Some (kind_arg kind)) of
             Inl e \<Rightarrow> Inl e
           | Inr ev \<Rightarrow>
               if length rv = length ev
               then Inr (map2 (\<lambda>a b. fsub (fdiv a b) (Fin 1)) rv ev)
               else Inl ValueError))"

section \<open>A reference solver\<close>

text \<open>
  Gaussian elimination with partial pivoting in exact arithmetic, on the rows of the
  augmented matrix: the method behind \<^verbatim>\<open>np.linalg.solve\<close>, which raises
  \<^verbatim>\<open>LinAlgError\<close> when no pivot is left. It instantiates the solver where a theorem is
  evaluated at explicit matrices.
\<close>

fun pick_pivot :: "(real list \<times> real) list \<Rightarrow> ((real list \<times> real) \<times> (real list \<times> real) list) option" where
  "pick_pivot [] = None"
| "pick_pivot (row # rows) =
     (case pick_pivot rows of
        None \<Rightarrow> Some (row, [])
      | Some (best, others) \<Rightarrow>
          if \<bar>hd (fst best)\<bar> > \<bar>hd (fst row)\<bar>
          then Some (best, row # others)
          else Some (row, best # others))"

definition eliminate :: "real list \<times> real \<Rightarrow> real list \<times> real \<Rightarrow> real list \<times> real" where
  "eliminate p row =
     (let f = hd (fst row) / hd (fst p)
      in (map2 (\<lambda>a b. a - f * b) (tl (fst row)) (tl (fst p)), snd row - f * snd p))"

fun gauss :: "nat \<Rightarrow> (real list \<times> real) list \<Rightarrow> error + real list" where
  "gauss 0 rows = Inr []"
| "gauss (Suc n) rows =
     (case pick_pivot rows of
        None \<Rightarrow> Inl LinAlgError
      | Some (p, others) \<Rightarrow>
          if hd (fst p) = 0 then Inl LinAlgError
          else
            (case gauss n (map (eliminate p) others) of
               Inl e \<Rightarrow> Inl e
             | Inr xs \<Rightarrow>
                 Inr ((snd p - sum_list (map2 (*) (tl (fst p)) xs)) / hd (fst p) # xs)))"

definition ref_solve :: solver where
  "ref_solve a b =
     (if length b = length a \<and> list_all (\<lambda>row. length row = length a) a
      then gauss (length a) (zip a b)
      else Inl LinAlgError)"

section \<open>The solver in double arithmetic\<close>

text \<open>
  Rounding to a double: to the nearest multiple of \<open>2\<^sup>e\<^sup>-\<^sup>5\<^sup>2\<close> for \<open>2\<^sup>e \<le> |x| < 2\<^sup>e\<^sup>+\<^sup>1\<close>, a tie
  to the even multiple. The exponent is not bounded: no overflow and no subnormal numbers.
\<close>

definition pow2 :: "int \<Rightarrow> real" where
  "pow2 k = (if 0 \<le> k then 2 ^ nat k else 1 / 2 ^ nat (- k))"

definition rne :: "real \<Rightarrow> int" where
  "rne y =
     (let f = \<lfloor>y\<rfloor> in
      if y - of_int f < 1 / 2 then f
      else if 1 / 2 < y - of_int f then f + 1
      else if even f then f else f + 1)"

definition round53 :: "real \<Rightarrow> real" where
  "round53 x =
     (if x = 0 then 0
      else of_int (rne (x / pow2 (\<lfloor>log 2 \<bar>x\<bar>\<rfloor> - 52))) * pow2 (\<lfloor>log 2 \<bar>x\<bar>\<rfloor> - 52))"

text \<open>
  \<^verbatim>\<open>np.linalg.solve\<close> runs LAPACK's \<^verbatim>\<open>gesv\<close> on doubles: an LU factorisation with partial
  pivoting, in which a column is scaled by the rounded reciprocal of its pivot, then the
  two triangular solves. It raises \<^verbatim>\<open>LinAlgError\<close> only when a pivot is exactly zero.
  \<open>double_solve\<close> is the reference solver with every operation rounded.
\<close>

definition eliminate53 :: "real list \<times> real \<Rightarrow> real list \<times> real \<Rightarrow> real list \<times> real" where
  "eliminate53 p row =
     (let f = round53 (hd (fst row) * round53 (1 / hd (fst p)))
      in (map2 (\<lambda>a b. round53 (a - round53 (f * b))) (tl (fst row)) (tl (fst p)),
          round53 (snd row - round53 (f * snd p))))"

fun gauss53 :: "nat \<Rightarrow> (real list \<times> real) list \<Rightarrow> error + real list" where
  "gauss53 0 rows = Inr []"
| "gauss53 (Suc n) rows =
     (case pick_pivot rows of
        None \<Rightarrow> Inl LinAlgError
      | Some (p, others) \<Rightarrow>
          if hd (fst p) = 0 then Inl LinAlgError
          else
            (case gauss53 n (map (eliminate53 p) others) of
               Inl e \<Rightarrow> Inl e
             | Inr xs \<Rightarrow>
                 Inr (round53 (foldl (\<lambda>acc (a, v). round53 (acc - round53 (a * v))) (snd p)
                        (zip (tl (fst p)) xs) / hd (fst p)) # xs)))"

definition double_solve :: solver where
  "double_solve a b =
     (if length b = length a \<and> list_all (\<lambda>row. length row = length a) a
      then gauss53 (length a) (zip a b)
      else Inl LinAlgError)"

text \<open>
  The double nearest to 0.09, and the stored state of two perfectly correlated assets of
  variance 0.09: \<^verbatim>\<open>hvar = [[[0.09, 0.09], [0.09, 0.09]]]\<close>.
\<close>

definition d009 :: real where
  "d009 = 3242591731706757 / 36028797018963968"

definition perfectly_correlated :: "unit results" where
  "perfectly_correlated = stored [[1, 2]] 2 [[[d009, d009], [d009, d009]]]"

section \<open>String rendering\<close>

text \<open>\<^verbatim>\<open>str\<close> of an integer, of a flag and of a value that may be \<^verbatim>\<open>None\<close>.\<close>

definition digit_char :: "nat \<Rightarrow> char" where
  "digit_char d = ''0123456789'' ! d"

function str_nat :: "nat \<Rightarrow> string" where
  "str_nat n = (if n < 10 then [digit_char n] else str_nat (n div 10) @ [digit_char (n mod 10)])"
  by pat_completeness auto
termination
  by (relation "measure id") auto

declare str_nat.simps [simp del]

definition str_int :: "int \<Rightarrow> string" where
  "str_int i = (if i < 0 then ''-'' @ str_nat (nat (- i)) else str_nat (nat i))"

definition str_flag :: "bool option \<Rightarrow> string" where
  "str_flag b = (case b of None \<Rightarrow> ''None'' | Some True \<Rightarrow> ''True'' | Some False \<Rightarrow> ''False'')"

definition nl :: string where
  "nl = [CHR 0x0A]"

text \<open>
  What \<^verbatim>\<open>__str__\<close> calls and this file does not define: \<^verbatim>\<open>format_time\<close> of
  \<^verbatim>\<open>utils\<close>, \<^verbatim>\<open>str\<close> and \<^verbatim>\<open>penalty\<close> of the parameter object, \<^verbatim>\<open>str\<close> of an array
  and the format \<^verbatim>\<open>%.2f\<close>. They are parameters of the rendering; the first three may
  raise.
\<close>

record 'p renderers =
  format_time :: "real option \<Rightarrow> error + string"
  str_params :: "'p \<Rightarrow> error + string"
  penalty :: "'p \<Rightarrow> error + real"
  str_array :: "real list list \<Rightarrow> string"
  fmt2f :: "real \<Rightarrow> string"

text \<open>
  \<^verbatim>\<open>'...' + self.model\<close> raises \<^verbatim>\<open>TypeError\<close> on \<^verbatim>\<open>None\<close>; an attribute read on
  \<^verbatim>\<open>None\<close>, or of an attribute the object lacks, raises \<^verbatim>\<open>AttributeError\<close>.
\<close>

definition str_concat :: "string \<Rightarrow> string option \<Rightarrow> error + string" where
  "str_concat label v = (case v of None \<Rightarrow> Inl TypeError | Some s \<Rightarrow> Inr (label @ s))"

definition get_attr :: "'o option \<Rightarrow> ('o \<Rightarrow> 'a option) \<Rightarrow> error + 'a" where
  "get_attr obj field =
     (case obj of
        None \<Rightarrow> Inl AttributeError
      | Some ob \<Rightarrow> (case field ob of None \<Rightarrow> Inl AttributeError | Some v \<Rightarrow> Inr v))"

text \<open>
  The \<^verbatim>\<open>try\<close> of lines 119 to 122: the bare \<^verbatim>\<open>except\<close> catches whatever reading and
  rendering \<^verbatim>\<open>self.opt_out.nit\<close> raises, and appends the placeholder instead.
\<close>

definition str_iterations :: "'p results \<Rightarrow> string" where
  "str_iterations r =
     (case get_attr (opt_out r) opt_nit of
        Inl e \<Rightarrow> nl @ ''Iterations = NA''
      | Inr n \<Rightarrow> nl @ ''Iterations = '' @ str_int n)"

definition str_loglik :: "'p renderers \<Rightarrow> 'p results \<Rightarrow> error + string" where
  "str_loglik env r =
     (case get_attr (opt_out r) opt_fun of
        Inl e \<Rightarrow> Inl e
      | Inr f \<Rightarrow>
          (case param_final r of
             None \<Rightarrow> Inl AttributeError
           | Some p \<Rightarrow>
               (case penalty env p of
                  Inl e \<Rightarrow> Inl e
                | Inr pen \<Rightarrow> Inr (''Final log-likelihood = '' @ fmt2f env (- f + pen) @ nl))))"

text \<open>
  The right-hand sides of \<^verbatim>\<open>show = ...\<close> and of each \<^verbatim>\<open>show += ...\<close>, in the order of
  the statements; each is the piece appended or the exception the statement raises.
\<close>

definition str_pieces :: "'p renderers \<Rightarrow> 'p results \<Rightarrow> (error + string) list" where
  "str_pieces env r =
     [Inr (replicate 60 CHR ''=''),
      str_concat (nl @ ''Model: '') (model r),
      str_concat (nl @ ''Restriction: '') (restriction r),
      Inr (nl @ ''Use target: '' @ str_flag (use_target r)),
      Inr (nl @ ''Matrix C is free: '' @ str_flag (cfree r)),
      (case get_attr (opt_out r) opt_x of
         Inl e \<Rightarrow> Inl e
       | Inr xs \<Rightarrow> Inr (nl @ ''Number of parameters: '' @ str_nat (length xs))),
      Inr (str_iterations r),
      Inr (nl @ ''Optimization method = '' @ (case opt_method r of None \<Rightarrow> ''None'' | Some m \<Rightarrow> m)),
      (case format_time env (time_delta r) of
         Inl e \<Rightarrow> Inl e
       | Inr t \<Rightarrow> Inr (nl @ ''Optimization time = '' @ t)),
      Inr (nl @ nl @ ''Final parameters:''),
      (case param_final r of None \<Rightarrow> Inr ''None'' | Some p \<Rightarrow> str_params env p),
      Inr (nl @ ''Variance target:'' @ nl),
      Inr ((case var_target r of None \<Rightarrow> ''None'' | Some v \<Rightarrow> str_array env v) @ nl),
      (case get_attr (opt_out r) opt_fun of
         Inl e \<Rightarrow> Inl e
       | Inr f \<Rightarrow> Inr (nl @ ''Final log-likelihood (with penalty) = '' @ fmt2f env (- f) @ nl)),
      str_loglik env r,
      Inr (replicate 60 CHR ''='')]"

text \<open>The statements run in order; the first exception ends the call.\<close>

fun collect :: "(error + 'a) list \<Rightarrow> error + 'a list" where
  "collect [] = Inr []"
| "collect (Inl e # ps) = Inl e"
| "collect (Inr v # ps) = (case collect ps of Inl e \<Rightarrow> Inl e | Inr vs \<Rightarrow> Inr (v # vs))"

text \<open>\<^verbatim>\<open>__str__\<close>\<close>

definition results_str :: "'p renderers \<Rightarrow> 'p results \<Rightarrow> error + string" where
  "results_str env r =
     (case collect (str_pieces env r) of
        Inl e \<Rightarrow> Inl e
      | Inr ps \<Rightarrow> Inr (concat ps))"

text \<open>
  A state with every field but the iteration count, and renderers that return fixed
  strings, at which the rendering is evaluated below.
\<close>

definition plain_renderers :: "unit renderers" where
  "plain_renderers =
     \<lparr>format_time = (\<lambda>t. Inr ''1.5 s''), str_params = (\<lambda>p. Inr ''params''),
      penalty = (\<lambda>p. Inr 0), str_array = (\<lambda>a. ''array''),
      fmt2f = (\<lambda>v. if v = - 3 then ''-3.00'' else ''?'')\<rparr>"

definition estimated :: "unit results" where
  "estimated =
     \<lparr>innov = [[1, 2]], nstocks = 2, hvar = [[[2, 0], [0, 2]]], var_target = Some [[2, 0], [0, 2]],
      model = Some ''standard'', restriction = Some ''scalar'', use_target = Some True,
      cfree = Some False, opt_method = Some ''SLSQP'', time_delta = Some (3 / 2),
      param_start = Some (), param_final = Some (),
      opt_out = Some \<lparr>opt_x = Some [1 / 10, 4 / 5], opt_nit = None, opt_fun = Some 3\<rparr>\<rparr>"

section \<open>Facts about the arithmetic and the loop\<close>

lemma fsum_Fin: "fsum (map Fin xs) = Fin (sum_list xs)"
  by (induction xs) auto

lemma kind_arg_Some: "kind_arg (Some k) = k"
  by (simp add: kind_arg_def)

lemma kind_arg_None: "kind_arg None = ''equal''"
  by (simp add: kind_arg_def)

text \<open>
  A loop that returns has appended one normalised solution per matrix, in order, behind
  what \<open>out\<close> held.
\<close>

lemma minvar_loop_Inr:
  "minvar_loop solve n out hs = Inr res \<Longrightarrow>
     length res = length out + length hs \<and> take (length out) res = out \<and>
     (\<forall>t<length hs. \<exists>x. solve (hs ! t) (ones n) = Inr x \<and> res ! (length out + t) = normalise x)"
proof (induction hs arbitrary: out)
  case Nil
  then show ?case by simp
next
  case (Cons h hs)
  from Cons.prems obtain x where x: "solve h (ones n) = Inr x"
    by (auto split: sum.splits)
  with Cons.prems have rec: "minvar_loop solve n (out @ [normalise x]) hs = Inr res"
    by simp
  from Cons.IH [OF rec]
  have len: "length res = Suc (length out) + length hs"
    and tk: "take (Suc (length out)) res = out @ [normalise x]"
    and rest: "\<forall>t<length hs. \<exists>y. solve (hs ! t) (ones n) = Inr y \<and>
                 res ! (Suc (length out) + t) = normalise y"
    by simp_all
  have "take (length out) (take (Suc (length out)) res) = take (length out) (out @ [normalise x])"
    by (simp only: tk)
  then have tk': "take (length out) res = out"
    by simp
  have "res ! length out = take (Suc (length out)) res ! length out"
    by simp
  then have first: "res ! length out = normalise x"
    by (simp only: tk nth_append_length)
  show ?case
  proof (intro conjI allI impI)
    show "length res = length out + length (h # hs)"
      using len by simp
    show "take (length out) res = out"
      by (rule tk')
  next
    fix t
    assume "t < length (h # hs)"
    then show "\<exists>y. solve ((h # hs) ! t) (ones n) = Inr y \<and> res ! (length out + t) = normalise y"
      using x first rest by (cases t) simp_all
  qed
qed

lemma minvar_loop_total:
  "(\<forall>t<length hs. \<exists>x. solve (hs ! t) (ones n) = Inr x) \<Longrightarrow>
     \<exists>res. minvar_loop solve n out hs = Inr res"
proof (induction hs arbitrary: out)
  case Nil
  then show ?case by simp
next
  case (Cons h hs)
  from Cons.prems have "\<exists>x. solve h (ones n) = Inr x"
    by force
  then obtain x where x: "solve h (ones n) = Inr x" ..
  from Cons.prems have "\<forall>t<length hs. \<exists>x. solve (hs ! t) (ones n) = Inr x"
    by force
  from Cons.IH [OF this] x show ?case
    by simp
qed

text \<open>
  A loop over matrices of which one makes the solver fail ends with the error of the
  first such matrix.
\<close>

lemma minvar_loop_fails:
  "t < length hs \<Longrightarrow> solve (hs ! t) (ones n) = Inl e \<Longrightarrow>
     \<exists>s e'. s \<le> t \<and> solve (hs ! s) (ones n) = Inl e' \<and>
       (\<forall>u<s. \<exists>y. solve (hs ! u) (ones n) = Inr y) \<and> minvar_loop solve n out hs = Inl e'"
proof (induction hs arbitrary: out t)
  case Nil
  then show ?case by simp
next
  case (Cons h hs)
  show ?case
  proof (cases "solve h (ones n)")
    case (Inl e0)
    then have "0 \<le> t \<and> solve ((h # hs) ! 0) (ones n) = Inl e0 \<and>
       (\<forall>u<0. \<exists>y. solve ((h # hs) ! u) (ones n) = Inr y) \<and>
       minvar_loop solve n out (h # hs) = Inl e0"
      by simp
    then show ?thesis by blast
  next
    case (Inr x)
    with Cons.prems obtain k where k: "t = Suc k"
      by (cases t) auto
    with Cons.prems have "k < length hs" "solve (hs ! k) (ones n) = Inl e"
      by simp_all
    from Cons.IH [OF this, of "out @ [normalise x]"]
    obtain s e' where s: "s \<le> k" "solve (hs ! s) (ones n) = Inl e'"
      "\<forall>u<s. \<exists>y. solve (hs ! u) (ones n) = Inr y"
      "minvar_loop solve n (out @ [normalise x]) hs = Inl e'"
      by blast
    have "\<forall>u<Suc s. \<exists>y. solve ((h # hs) ! u) (ones n) = Inr y"
    proof (intro allI impI)
      fix u
      assume "u < Suc s"
      then show "\<exists>y. solve ((h # hs) ! u) (ones n) = Inr y"
        using Inr s(3) by (cases u) auto
    qed
    with s k Inr have "Suc s \<le> t \<and> solve ((h # hs) ! Suc s) (ones n) = Inl e' \<and>
       (\<forall>u<Suc s. \<exists>y. solve ((h # hs) ! u) (ones n) = Inr y) \<and>
       minvar_loop solve n out (h # hs) = Inl e'"
      by simp
    then show ?thesis by blast
  qed
qed

text \<open>The reference solver on the matrices used below.\<close>

lemma ref_solve_singular: "ref_solve [[1, 1], [1, 1]] (ones 2) = Inl LinAlgError"
  by (simp add: ref_solve_def ones_def eliminate_def eval_nat_numeral)

lemma ref_solve_scaled_identity: "ref_solve [[2, 0], [0, 2]] (ones 2) = Inr [1 / 2, 1 / 2]"
  by (simp add: ref_solve_def ones_def eliminate_def eval_nat_numeral)

lemma ref_solve_correlated: "ref_solve [[2, 1], [1, 3]] (ones 2) = Inr [2 / 5, 1 / 5]"
  by (simp add: ref_solve_def ones_def eliminate_def eval_nat_numeral)

section \<open>Unsupported kinds\<close>

text \<open>
  C2. A kind string other than \<^verbatim>\<open>'equal'\<close> and \<^verbatim>\<open>'minvar'\<close> makes \<^verbatim>\<open>weights\<close> raise
  \<^verbatim>\<open>ValueError\<close>, whatever the stored state and the solver, and each method that
  forwards the kind (\<^verbatim>\<open>portf_rvar\<close>, \<^verbatim>\<open>portf_evar\<close>, \<^verbatim>\<open>portf_mvar\<close>,
  \<^verbatim>\<open>loss_var_ratio\<close>) raises the same error: no default weighting is substituted.
\<close>

theorem unknown_kind_raises:
  assumes "kind \<noteq> ''equal''" and "kind \<noteq> ''minvar''"
  shows "weights solve r (Some kind) = Inl ValueError
    \<and> portf_rvar solve r (Some kind) = Inl ValueError
    \<and> portf_evar solve r (Some kind) = Inl ValueError
    \<and> portf_mvar solve r (Some kind) = Inl ValueError
    \<and> loss_var_ratio solve r (Some kind) = Inl ValueError"
proof -
  have w: "weights solve r (Some kind) = Inl ValueError"
    using assms by (simp add: weights_def kind_arg_Some)
  have rv: "portf_rvar solve r (Some kind) = Inl ValueError"
    by (simp add: portf_rvar_def kind_arg_Some w)
  have ev: "portf_evar solve r (Some kind) = Inl ValueError"
    by (simp add: portf_evar_def kind_arg_Some w)
  have mv: "portf_mvar solve r (Some kind) = Inl ValueError"
    by (simp add: portf_mvar_def kind_arg_Some ev)
  have lv: "loss_var_ratio solve r (Some kind) = Inl ValueError"
    by (simp add: loss_var_ratio_def kind_arg_Some rv)
  from w rv ev mv lv show ?thesis by simp
qed

theorem unknown_kind_raises_witness:
  "''bogus'' \<noteq> ''equal'' \<and> ''bogus'' \<noteq> ''minvar''
    \<and> weights ref_solve scenario (Some ''bogus'') = Inl ValueError
    \<and> portf_rvar ref_solve scenario (Some ''bogus'') = Inl ValueError
    \<and> portf_evar ref_solve scenario (Some ''bogus'') = Inl ValueError
    \<and> portf_mvar ref_solve scenario (Some ''bogus'') = Inl ValueError
    \<and> loss_var_ratio ref_solve scenario (Some ''bogus'') = Inl ValueError"
proof -
  have a: "''bogus'' \<noteq> ''equal''" and b: "''bogus'' \<noteq> ''minvar''"
    by simp_all
  from unknown_kind_raises [OF a b, of ref_solve scenario] a b
  show ?thesis by blast
qed

section \<open>The default kind\<close>

text \<open>
  C10. Each of the five public methods \<^verbatim>\<open>weights\<close>, \<^verbatim>\<open>portf_rvar\<close>, \<^verbatim>\<open>portf_evar\<close>,
  \<^verbatim>\<open>portf_mvar\<close> and \<^verbatim>\<open>loss_var_ratio\<close>, called without a kind, returns what the call
  with \<^verbatim>\<open>kind='equal'\<close> returns, for every stored state and solver.
\<close>

theorem default_kind_is_equal:
  "weights solve r None = weights solve r (Some ''equal'')
    \<and> portf_rvar solve r None = portf_rvar solve r (Some ''equal'')
    \<and> portf_evar solve r None = portf_evar solve r (Some ''equal'')
    \<and> portf_mvar solve r None = portf_mvar solve r (Some ''equal'')
    \<and> loss_var_ratio solve r None = loss_var_ratio solve r (Some ''equal'')"
proof -
  have "weights solve r None = weights solve r (Some ''equal'')"
    by (simp add: weights_def kind_arg_Some kind_arg_None)
  moreover have "portf_rvar solve r None = portf_rvar solve r (Some ''equal'')"
    by (simp add: portf_rvar_def kind_arg_Some kind_arg_None)
  moreover have "portf_evar solve r None = portf_evar solve r (Some ''equal'')"
    by (simp add: portf_evar_def kind_arg_Some kind_arg_None)
  moreover have "portf_mvar solve r None = portf_mvar solve r (Some ''equal'')"
    by (simp add: portf_mvar_def kind_arg_Some kind_arg_None)
  moreover have "loss_var_ratio solve r None = loss_var_ratio solve r (Some ''equal'')"
    unfolding loss_var_ratio_def kind_arg_Some kind_arg_None by (rule refl)
  ultimately show ?thesis by simp
qed

section \<open>Equal weights\<close>

lemma ones_like_rows:
  "list_all (\<lambda>row. length row = n) rows \<Longrightarrow>
     map (map (\<lambda>_. c)) rows = replicate (length rows) (replicate n c)"
  by (induction rows) (auto simp: map_replicate_const)

lemma weights_equal_uniform:
  assumes "0 < nstocks r" and "list_all (\<lambda>row. length row = nstocks r) (innov r)"
  shows "weights solve r (Some ''equal'') =
    Inr (Array2 (nstocks r)
      (replicate (length (innov r)) (replicate (nstocks r) (Fin (1 / real (nstocks r))))))"
proof -
  from assms(1) have "fdiv (Fin 1) (Fin (real (nstocks r))) = Fin (1 / real (nstocks r))"
    by simp
  with ones_like_rows [OF assms(2)] show ?thesis
    by (simp add: weights_def kind_arg_Some weights_equal_def)
qed

text \<open>
  C3. For stored innovations of \<open>T\<close> rows of \<open>N \<ge> 1\<close> entries each, \<^verbatim>\<open>weights('equal')\<close>
  returns the array of shape \<open>(T, N)\<close> whose every entry is \<open>1 / N\<close>.
\<close>

theorem weights_equal_entries:
  assumes "0 < nstocks r" and "list_all (\<lambda>row. length row = nstocks r) (innov r)"
  shows "weights solve r (Some ''equal'') =
    Inr (Array2 (nstocks r)
      (replicate (length (innov r)) (replicate (nstocks r) (Fin (1 / real (nstocks r))))))"
  using assms by (rule weights_equal_uniform)

theorem weights_equal_entries_witness:
  "0 < nstocks scenario \<and> list_all (\<lambda>row. length row = nstocks scenario) (innov scenario)
    \<and> weights ref_solve scenario (Some ''equal'') = Inr (Array2 2 [[Fin (1 / 2), Fin (1 / 2)]])"
proof -
  have a: "0 < nstocks scenario"
    by (simp add: scenario_def stored_def)
  have b: "list_all (\<lambda>row. length row = nstocks scenario) (innov scenario)"
    by (simp add: scenario_def stored_def)
  have "weights ref_solve scenario (Some ''equal'') = Inr (Array2 2 [[Fin (1 / 2), Fin (1 / 2)]])"
    using weights_equal_entries [OF a b, of ref_solve]
    by (simp add: scenario_def stored_def eval_nat_numeral)
  with a b show ?thesis by blast
qed

section \<open>A failing solve\<close>

text \<open>
  C8, amended. When \<^verbatim>\<open>np.linalg.solve\<close> raises on some stored matrix \<open>H\<^sub>t\<close>, as it does
  when the factorisation meets a pivot that is exactly zero, \<^verbatim>\<open>weights('minvar')\<close> fails,
  and its error is the very error a solve raised (that of the first matrix whose solve
  fails): nothing catches or replaces it. That \<open>H\<^sub>t\<close> is singular is not enough for the
  solve to raise: in double arithmetic a singular matrix can leave a pivot that is not zero.
\<close>

theorem failing_solve_propagates:
  assumes "t < length (hvar r)" and "solve (hvar r ! t) (ones (nstocks r)) = Inl e"
  shows "\<exists>s e'. s \<le> t \<and> solve (hvar r ! s) (ones (nstocks r)) = Inl e'
    \<and> (\<forall>u<s. \<exists>y. solve (hvar r ! u) (ones (nstocks r)) = Inr y)
    \<and> weights solve r (Some ''minvar'') = Inl e'"
proof -
  from minvar_loop_fails [where solve = solve and out = "[]", OF assms]
  obtain s e' where s: "s \<le> t" "solve (hvar r ! s) (ones (nstocks r)) = Inl e'"
    "\<forall>u<s. \<exists>y. solve (hvar r ! u) (ones (nstocks r)) = Inr y"
    "minvar_loop solve (nstocks r) [] (hvar r) = Inl e'"
    by blast
  from s(4) have "weights solve r (Some ''minvar'') = Inl e'"
    by (simp add: weights_def kind_arg_Some weights_minvar_def)
  with s(1-3) show ?thesis by blast
qed

theorem failing_solve_propagates_witness:
  "0 < length (hvar degenerate)
    \<and> ref_solve (hvar degenerate ! 0) (ones (nstocks degenerate)) = Inl LinAlgError
    \<and> weights ref_solve degenerate (Some ''minvar'') = Inl LinAlgError"
proof -
  have a: "0 < length (hvar degenerate)"
    by (simp add: degenerate_def stored_def)
  have b: "ref_solve (hvar degenerate ! 0) (ones (nstocks degenerate)) = Inl LinAlgError"
    by (simp add: degenerate_def stored_def ref_solve_singular)
  from failing_solve_propagates [where solve = ref_solve and r = degenerate and t = 0, OF a b]
  obtain s e' where "s \<le> 0" "ref_solve (hvar degenerate ! s) (ones (nstocks degenerate)) = Inl e'"
    "weights ref_solve degenerate (Some ''minvar'') = Inl e'"
    by blast
  with b have "weights ref_solve degenerate (Some ''minvar'') = Inl LinAlgError"
    by simp
  with a b show ?thesis by blast
qed

section \<open>The scenario of the specification\<close>

text \<open>
  C7. With \<open>N = 2\<close>, \<open>T = 1\<close>, \<^verbatim>\<open>innov = [[1.0, 2.0]]\<close> and
  \<^verbatim>\<open>hvar = [[[2.0, 0.0], [0.0, 2.0]]]\<close>, and a solver that returns the solution
  \<open>[1/2, 1/2]\<close> of \<open>H x = 1\<close>: \<^verbatim>\<open>weights_equal()\<close> and \<^verbatim>\<open>weights_minvar()\<close> are
  \<open>[[0.5, 0.5]]\<close>, \<^verbatim>\<open>portf_rvar('equal')\<close> is \<open>[1.5]\<close>, \<^verbatim>\<open>portf_evar('equal')\<close> is
  \<open>[1.0]\<close>, \<^verbatim>\<open>portf_mvar('equal')\<close> is \<open>1.0\<close> and \<^verbatim>\<open>loss_var_ratio('equal')\<close> is
  \<open>[0.5]\<close>.
\<close>

theorem scenario_values:
  assumes "solve [[2, 0], [0, 2]] [1, 1] = Inr [1 / 2, 1 / 2]"
  shows "weights_equal scenario = Array2 2 [[Fin (1 / 2), Fin (1 / 2)]]
    \<and> weights_minvar solve scenario = Inr (Array2 2 [[Fin (1 / 2), Fin (1 / 2)]])
    \<and> portf_rvar solve scenario (Some ''equal'') = Inr [Fin (3 / 2)]
    \<and> portf_evar solve scenario (Some ''equal'') = Inr [Fin 1]
    \<and> portf_mvar solve scenario (Some ''equal'') = Inr (Fin 1)
    \<and> loss_var_ratio solve scenario (Some ''equal'') = Inr [Fin (1 / 2)]"
proof -
  have we: "weights_equal scenario = Array2 2 [[Fin (1 / 2), Fin (1 / 2)]]"
    by (simp add: weights_equal_def scenario_def stored_def)
  have w: "weights solve scenario (Some ''equal'') = Inr (Array2 2 [[Fin (1 / 2), Fin (1 / 2)]])"
    by (simp add: weights_def kind_arg_Some we)
  have wm: "weights_minvar solve scenario = Inr (Array2 2 [[Fin (1 / 2), Fin (1 / 2)]])"
    using assms
    by (simp add: weights_minvar_def scenario_def stored_def ones_def eval_nat_numeral
        normalise_def np_array_def)
  have rv: "portf_rvar solve scenario (Some ''equal'') = Inr [Fin (3 / 2)]"
    by (simp add: portf_rvar_def kind_arg_Some w mul_innov_def)
      (simp add: scenario_def stored_def)
  have ev: "portf_evar solve scenario (Some ''equal'') = Inr [Fin 1]"
    by (simp add: portf_evar_def kind_arg_Some w contract_hvar_def)
      (simp add: scenario_def stored_def evar_obs_def)
  have mv: "portf_mvar solve scenario (Some ''equal'') = Inr (Fin 1)"
    by (simp add: portf_mvar_def kind_arg_Some ev mean_def)
  have lv: "loss_var_ratio solve scenario (Some ''equal'') = Inr [Fin (1 / 2)]"
    by (simp add: loss_var_ratio_def kind_arg_Some rv ev fsub_def)
  from we wm rv ev mv lv show ?thesis by simp
qed

theorem scenario_values_witness:
  "ref_solve [[2, 0], [0, 2]] [1, 1] = Inr [1 / 2, 1 / 2]
    \<and> weights_equal scenario = Array2 2 [[Fin (1 / 2), Fin (1 / 2)]]
    \<and> weights_minvar ref_solve scenario = Inr (Array2 2 [[Fin (1 / 2), Fin (1 / 2)]])
    \<and> portf_rvar ref_solve scenario (Some ''equal'') = Inr [Fin (3 / 2)]
    \<and> portf_evar ref_solve scenario (Some ''equal'') = Inr [Fin 1]
    \<and> portf_mvar ref_solve scenario (Some ''equal'') = Inr (Fin 1)
    \<and> loss_var_ratio ref_solve scenario (Some ''equal'') = Inr [Fin (1 / 2)]"
proof -
  have a: "ref_solve [[2, 0], [0, 2]] [1, 1] = Inr [1 / 2, 1 / 2]"
    using ref_solve_scaled_identity by (simp add: ones_def eval_nat_numeral)
  from scenario_values [where solve = ref_solve, OF a] a show ?thesis by blast
qed

section \<open>Rendering without an iteration count\<close>

text \<open>Replacing a piece that was rendered leaves the other pieces and any error as they were.\<close>

lemma collect_update:
  "i < length ps \<Longrightarrow> ps ! i = Inr w \<Longrightarrow>
     collect (ps[i := Inr v]) = (case collect ps of Inl e \<Rightarrow> Inl e | Inr vs \<Rightarrow> Inr (vs[i := v]))"
proof (induction ps arbitrary: i rule: collect.induct)
  case 1
  then show ?case by simp
next
  case (2 e ps)
  then show ?case by (cases i) simp_all
next
  case (3 v0 ps)
  then show ?case by (cases i) (simp_all split: sum.splits)
qed

text \<open>
  C9. When the optimizer output has no attribute \<^verbatim>\<open>nit\<close>, \<^verbatim>\<open>__str__\<close> returns what it
  returns for the same state with an iteration count \<open>n\<close>, except that the piece
  \<^verbatim>\<open>'\\nIterations = n'\<close> is \<^verbatim>\<open>'\\nIterations = NA'\<close>: every other piece is the same, and
  the call raises only if it raises with the count present, with the same error.
\<close>

theorem missing_nit_renders_NA:
  assumes "opt_out r = Some oo" and "opt_nit oo = None"
  shows "str_pieces env (r\<lparr>opt_out := Some (oo\<lparr>opt_nit := Some n\<rparr>)\<rparr>) ! 6
        = Inr (nl @ ''Iterations = '' @ str_int n)
    \<and> results_str env r =
       (case collect (str_pieces env (r\<lparr>opt_out := Some (oo\<lparr>opt_nit := Some n\<rparr>)\<rparr>)) of
          Inl e \<Rightarrow> Inl e
        | Inr ps \<Rightarrow> Inr (concat (ps[6 := nl @ ''Iterations = NA''])))
    \<and> ((\<exists>s. results_str env r = Inr s)
        = (\<exists>s. results_str env (r\<lparr>opt_out := Some (oo\<lparr>opt_nit := Some n\<rparr>)\<rparr>) = Inr s))"
proof -
  let ?r' = "r\<lparr>opt_out := Some (oo\<lparr>opt_nit := Some n\<rparr>)\<rparr>"
  have six: "str_pieces env ?r' ! 6 = Inr (nl @ ''Iterations = '' @ str_int n)"
    by (simp add: str_pieces_def str_iterations_def get_attr_def)
  have len: "6 < length (str_pieces env ?r')"
    by (simp add: str_pieces_def)
  have "str_pieces env r = (str_pieces env ?r')[6 := Inr (nl @ ''Iterations = NA'')]"
    using assms
    by (simp add: str_pieces_def str_iterations_def get_attr_def str_loglik_def
        cong: sum.case_cong option.case_cong)
  then have "collect (str_pieces env r) =
      (case collect (str_pieces env ?r') of Inl e \<Rightarrow> Inl e
       | Inr vs \<Rightarrow> Inr (vs[6 := nl @ ''Iterations = NA'']))"
    using collect_update [OF len six] by simp
  then have eq: "results_str env r =
       (case collect (str_pieces env ?r') of
          Inl e \<Rightarrow> Inl e
        | Inr ps \<Rightarrow> Inr (concat (ps[6 := nl @ ''Iterations = NA''])))"
    by (simp add: results_str_def split: sum.splits)
  have "(\<exists>s. results_str env r = Inr s) = (\<exists>s. results_str env ?r' = Inr s)"
    unfolding eq by (cases "collect (str_pieces env ?r')") (simp_all add: results_str_def)
  with six eq show ?thesis by simp
qed


theorem missing_nit_renders_NA_witness:
  "opt_out estimated = Some \<lparr>opt_x = Some [1 / 10, 4 / 5], opt_nit = None, opt_fun = Some 3\<rparr>
    \<and> opt_nit \<lparr>opt_x = Some [1 / 10, 4 / 5], opt_nit = None, opt_fun = Some 3\<rparr> = None
    \<and> results_str plain_renderers estimated =
      Inr (concat [replicate 60 CHR ''='', nl @ ''Model: standard'', nl @ ''Restriction: scalar'',
        nl @ ''Use target: True'', nl @ ''Matrix C is free: False'',
        nl @ ''Number of parameters: 2'', nl @ ''Iterations = NA'',
        nl @ ''Optimization method = SLSQP'', nl @ ''Optimization time = 1.5 s'',
        nl @ nl @ ''Final parameters:'', ''params'', nl @ ''Variance target:'' @ nl,
        ''array'' @ nl, nl @ ''Final log-likelihood (with penalty) = -3.00'' @ nl,
        ''Final log-likelihood = -3.00'' @ nl, replicate 60 CHR ''=''])"
proof -
  let ?oo = "\<lparr>opt_x = Some [1 / 10, 4 / 5], opt_nit = None, opt_fun = Some (3::real)\<rparr>"
  have a: "opt_out estimated = Some ?oo"
    by (simp add: estimated_def)
  have b: "opt_nit ?oo = None"
    by simp
  have two: "str_nat (Suc (Suc 0)) = ''2''"
    by (simp add: str_nat.simps [of "Suc (Suc 0)"] digit_char_def)
  have pieces: "collect (str_pieces plain_renderers (estimated\<lparr>opt_out := Some (?oo\<lparr>opt_nit := Some 7\<rparr>)\<rparr>)) =
      Inr [replicate 60 CHR ''='', nl @ ''Model: standard'', nl @ ''Restriction: scalar'',
        nl @ ''Use target: True'', nl @ ''Matrix C is free: False'',
        nl @ ''Number of parameters: 2'', nl @ ''Iterations = '' @ str_int 7,
        nl @ ''Optimization method = SLSQP'', nl @ ''Optimization time = 1.5 s'',
        nl @ nl @ ''Final parameters:'', ''params'', nl @ ''Variance target:'' @ nl,
        ''array'' @ nl, nl @ ''Final log-likelihood (with penalty) = -3.00'' @ nl,
        ''Final log-likelihood = -3.00'' @ nl, replicate 60 CHR ''='']"
    by (simp add: estimated_def plain_renderers_def str_pieces_def str_concat_def get_attr_def
        str_flag_def str_iterations_def str_loglik_def two)
  from missing_nit_renders_NA [OF a b, of plain_renderers 7]
  have "results_str plain_renderers estimated =
       (case collect (str_pieces plain_renderers (estimated\<lparr>opt_out := Some (?oo\<lparr>opt_nit := Some 7\<rparr>)\<rparr>)) of
          Inl e \<Rightarrow> Inl e
        | Inr ps \<Rightarrow> Inr (concat (ps[6 := nl @ ''Iterations = NA''])))"
    by simp
  then have "results_str plain_renderers estimated =
      Inr (concat [replicate 60 CHR ''='', nl @ ''Model: standard'', nl @ ''Restriction: scalar'',
        nl @ ''Use target: True'', nl @ ''Matrix C is free: False'',
        nl @ ''Number of parameters: 2'', nl @ ''Iterations = NA'',
        nl @ ''Optimization method = SLSQP'', nl @ ''Optimization time = 1.5 s'',
        nl @ nl @ ''Final parameters:'', ''params'', nl @ ''Variance target:'' @ nl,
        ''array'' @ nl, nl @ ''Final log-likelihood (with penalty) = -3.00'' @ nl,
        ''Final log-likelihood = -3.00'' @ nl, replicate 60 CHR ''=''])"
    by (simp only: pieces sum.case) (simp add: eval_nat_numeral)
  with a b show ?thesis by blast
qed

section \<open>The shape of the weights\<close>

lemma map2_nth:
  "length xs = n \<Longrightarrow> length ys = n \<Longrightarrow> map2 f xs ys = map (\<lambda>i. f (xs ! i) (ys ! i)) [0..<n]"
  by (auto simp: list_eq_iff_nth_eq)

lemma length_normalise: "length (normalise x) = length x"
  by (simp add: normalise_def)

text \<open>
  With at least one observation and a solver that returns \<open>N\<close> numbers for every stored
  matrix, \<^verbatim>\<open>weights_minvar\<close> returns a \<open>(T, N)\<close> array of normalised solutions.
\<close>

lemma weights_minvar_shape:
  assumes "hvar r \<noteq> []"
    and "\<forall>t<length (hvar r). \<exists>x. solve (hvar r ! t) (ones (nstocks r)) = Inr x \<and> length x = nstocks r"
  shows "\<exists>W. weights_minvar solve r = Inr (Array2 (nstocks r) W) \<and> length W = length (hvar r)
    \<and> (\<forall>t<length (hvar r). \<exists>x. solve (hvar r ! t) (ones (nstocks r)) = Inr x \<and> W ! t = normalise x)"
proof -
  from assms(2) have "\<forall>t<length (hvar r). \<exists>x. solve (hvar r ! t) (ones (nstocks r)) = Inr x"
    by blast
  from minvar_loop_total [where solve = solve and out = "[]", OF this]
  obtain W where W: "minvar_loop solve (nstocks r) [] (hvar r) = Inr W"
    by blast
  from minvar_loop_Inr [OF W]
  have len: "length W = length (hvar r)"
    and rows: "\<forall>t<length (hvar r). \<exists>x. solve (hvar r ! t) (ones (nstocks r)) = Inr x \<and> W ! t = normalise x"
    by simp_all
  from assms(1) len obtain row rest where Wc: "W = row # rest"
    by (cases W) auto
  from assms(1) have pos: "0 < length (hvar r)"
    by simp
  with rows obtain x where "solve (hvar r ! 0) (ones (nstocks r)) = Inr x" "W ! 0 = normalise x"
    by blast
  with assms(2) pos have "length (W ! 0) = nstocks r"
    by (auto simp: length_normalise)
  with Wc have "np_array W = Array2 (nstocks r) W"
    by (simp add: np_array_def)
  with W have "weights_minvar solve r = Inr (Array2 (nstocks r) W)"
    by (simp add: weights_minvar_def)
  with len rows show ?thesis by blast
qed

text \<open>Only a state with no matrix gets the array of shape \<^verbatim>\<open>(0,)\<close> as its weights.\<close>

lemma weights_Empty1:
  assumes "weights solve r (Some kind) = Inr Empty1"
  shows "hvar r = []"
proof -
  from assms have mv: "weights_minvar solve r = Inr Empty1"
    by (simp add: weights_def kind_arg_Some weights_equal_def split: if_splits)
  then obtain out where out: "minvar_loop solve (nstocks r) [] (hvar r) = Inr out"
    and arr: "np_array out = Empty1"
    by (auto simp: weights_minvar_def split: sum.splits)
  from arr have "out = []"
    by (simp add: np_array_def split: list.splits)
  with minvar_loop_Inr [OF out] show ?thesis by simp
qed

section \<open>Realized variance\<close>

text \<open>
  C5, as the claim states it, fails where the weights are not a \<open>(T, N)\<close> array. With no
  observation, \<^verbatim>\<open>weights('minvar')\<close> is \<^verbatim>\<open>np.array([])\<close> of shape \<^verbatim>\<open>(0,)\<close>, and for
  \<open>N = 2\<close> the product \<^verbatim>\<open>self.innov * weights\<close> of shapes \<^verbatim>\<open>(0, 2)\<close> and \<^verbatim>\<open>(0,)\<close> does
  not broadcast: \<^verbatim>\<open>portf_rvar('minvar')\<close> raises \<^verbatim>\<open>ValueError\<close> instead of returning the
  empty sequence. With a singular matrix, \<^verbatim>\<open>weights('minvar')\<close> raises and
  \<^verbatim>\<open>portf_rvar('minvar')\<close> raises with it.
\<close>

theorem portf_rvar_no_observation:
  "shape_ok no_obs \<and> weights ref_solve no_obs (Some ''minvar'') = Inr Empty1
    \<and> portf_rvar ref_solve no_obs (Some ''minvar'') = Inl ValueError
    \<and> shape_ok degenerate
    \<and> portf_rvar ref_solve degenerate (Some ''minvar'') = Inl LinAlgError"
proof -
  have "shape_ok no_obs \<and> weights ref_solve no_obs (Some ''minvar'') = Inr Empty1
    \<and> portf_rvar ref_solve no_obs (Some ''minvar'') = Inl ValueError"
    by (simp add: shape_ok_def no_obs_def stored_def weights_def kind_arg_Some weights_minvar_def
        np_array_def portf_rvar_def mul_innov_def)
  moreover have "shape_ok degenerate"
    by (simp add: shape_ok_def degenerate_def stored_def)
  moreover have "portf_rvar ref_solve degenerate (Some ''minvar'') = Inl LinAlgError"
    using ref_solve_singular
    by (simp add: degenerate_def stored_def weights_def kind_arg_Some weights_minvar_def
        portf_rvar_def)
  ultimately show ?thesis by simp
qed

text \<open>
  C5, amended. For stored innovations of shape \<open>T \<times> N\<close> and \<open>T\<close> matrices, and for the kind
  \<^verbatim>\<open>'equal'\<close>, or the kind \<^verbatim>\<open>'minvar'\<close> when \<open>T \<ge> 1\<close> and every solve returns \<open>N\<close>
  numbers, \<^verbatim>\<open>weights(kind)\<close> is a \<open>(T, N)\<close> array \<open>w\<close> and \<^verbatim>\<open>portf_rvar(kind)\<close> returns a
  sequence of length \<open>T\<close> whose entry \<open>t\<close> is the sum over the assets \<open>i\<close> of
  \<open>innov\<^sub>t\<^sub>i \<sqdot> w\<^sub>t\<^sub>i\<close>: a weighted sum of the innovations, not of their squares.
\<close>

theorem portf_rvar_weighted_sum:
  assumes "shape_ok r"
    and "kind = ''equal'' \<or> (kind = ''minvar'' \<and> hvar r \<noteq> []
      \<and> (\<forall>t<length (hvar r). \<exists>x. solve (hvar r ! t) (ones (nstocks r)) = Inr x
            \<and> length x = nstocks r))"
  shows "\<exists>W rv. weights solve r (Some kind) = Inr (Array2 (nstocks r) W)
    \<and> length W = length (innov r)
    \<and> portf_rvar solve r (Some kind) = Inr rv
    \<and> length rv = length (innov r)
    \<and> (\<forall>t<length (innov r). rv ! t =
          fsum (map (\<lambda>i. fmul (Fin (innov r ! t ! i)) (W ! t ! i)) [0..<nstocks r]))"
proof -
  from assms(1) have inn: "\<forall>t<length (innov r). length (innov r ! t) = nstocks r"
    and T: "length (hvar r) = length (innov r)"
    by (simp_all add: shape_ok_def list_all_length)
  have "\<exists>W. weights solve r (Some kind) = Inr (Array2 (nstocks r) W) \<and> length W = length (innov r)
      \<and> (\<forall>t<length (innov r). length (W ! t) = nstocks r)"
  proof (cases "kind = ''equal''")
    case True
    then have "weights solve r (Some kind) = Inr (Array2 (nstocks r)
        (map (map (\<lambda>_. fdiv (Fin 1) (Fin (real (nstocks r))))) (innov r)))"
      by (simp add: weights_def kind_arg_Some weights_equal_def)
    with inn show ?thesis by simp
  next
    case False
    with assms(2) have k: "kind = ''minvar''" and ne: "hvar r \<noteq> []"
      and sol: "\<forall>t<length (hvar r). \<exists>x. solve (hvar r ! t) (ones (nstocks r)) = Inr x
            \<and> length x = nstocks r"
      by simp_all
    from weights_minvar_shape [where solve = solve, OF ne sol]
    obtain W where W: "weights_minvar solve r = Inr (Array2 (nstocks r) W)"
      "length W = length (hvar r)"
      "\<forall>t<length (hvar r). \<exists>x. solve (hvar r ! t) (ones (nstocks r)) = Inr x \<and> W ! t = normalise x"
      by blast
    have "\<forall>t<length (innov r). length (W ! t) = nstocks r"
    proof (intro allI impI)
      fix t
      assume "t < length (innov r)"
      with T have t: "t < length (hvar r)" by simp
      with W(3) obtain x where x: "solve (hvar r ! t) (ones (nstocks r)) = Inr x" "W ! t = normalise x"
        by blast
      with sol t have "length x = nstocks r" by fastforce
      with x show "length (W ! t) = nstocks r"
        by (simp add: length_normalise)
    qed
    with W k T show ?thesis
      by (simp add: weights_def kind_arg_Some)
  qed
  then obtain W where W: "weights solve r (Some kind) = Inr (Array2 (nstocks r) W)"
    "length W = length (innov r)" "\<forall>t<length (innov r). length (W ! t) = nstocks r"
    by blast
  let ?rv = "map fsum (map2 (map2 (\<lambda>a v. fmul (Fin a) v)) (innov r) W)"
  from W have rv: "portf_rvar solve r (Some kind) = Inr ?rv"
    by (simp add: portf_rvar_def kind_arg_Some mul_innov_def)
  have len: "length ?rv = length (innov r)"
    using W(2) by simp
  have "\<forall>t<length (innov r). ?rv ! t =
          fsum (map (\<lambda>i. fmul (Fin (innov r ! t ! i)) (W ! t ! i)) [0..<nstocks r])"
  proof (intro allI impI)
    fix t
    assume t: "t < length (innov r)"
    with W(2) have "?rv ! t = fsum (map2 (\<lambda>a v. fmul (Fin a) v) (innov r ! t) (W ! t))"
      by simp
    also have "map2 (\<lambda>a v. fmul (Fin a) v) (innov r ! t) (W ! t) =
        map (\<lambda>i. fmul (Fin (innov r ! t ! i)) (W ! t ! i)) [0..<nstocks r]"
      using inn W(3) t by (intro map2_nth) simp_all
    finally show "?rv ! t = fsum (map (\<lambda>i. fmul (Fin (innov r ! t ! i)) (W ! t ! i)) [0..<nstocks r])" .
  qed
  with W(1,2) rv len show ?thesis by blast
qed

theorem portf_rvar_weighted_sum_witness:
  "shape_ok correlated \<and> hvar correlated \<noteq> []
    \<and> ref_solve (hvar correlated ! 0) (ones (nstocks correlated)) = Inr [2 / 5, 1 / 5]
    \<and> weights ref_solve correlated (Some ''minvar'') = Inr (Array2 2 [[Fin (2 / 3), Fin (1 / 3)]])
    \<and> portf_rvar ref_solve correlated (Some ''minvar'') = Inr [Fin (4 / 3)]"
proof -
  have a: "shape_ok correlated"
    by (simp add: shape_ok_def correlated_def stored_def)
  have ne: "hvar correlated \<noteq> []"
    by (simp add: correlated_def stored_def)
  have s: "ref_solve (hvar correlated ! 0) (ones (nstocks correlated)) = Inr [2 / 5, 1 / 5]"
    by (simp add: correlated_def stored_def ref_solve_correlated)
  have b: "''minvar'' = ''equal'' \<or> (''minvar'' = ''minvar'' \<and> hvar correlated \<noteq> []
      \<and> (\<forall>t<length (hvar correlated).
            \<exists>x. ref_solve (hvar correlated ! t) (ones (nstocks correlated)) = Inr x
            \<and> length x = nstocks correlated))"
    using s by (simp add: correlated_def stored_def)
  have w: "weights ref_solve correlated (Some ''minvar'') = Inr (Array2 2 [[Fin (2 / 3), Fin (1 / 3)]])"
    using s
    by (simp add: weights_def kind_arg_Some weights_minvar_def correlated_def stored_def
        normalise_def np_array_def)
  from portf_rvar_weighted_sum [where solve = ref_solve, OF a b]
  obtain W rv where W: "weights ref_solve correlated (Some ''minvar'') = Inr (Array2 (nstocks correlated) W)"
    and rv: "portf_rvar ref_solve correlated (Some ''minvar'') = Inr rv"
    and len: "length rv = length (innov correlated)"
    and val: "\<forall>t<length (innov correlated). rv ! t =
          fsum (map (\<lambda>i. fmul (Fin (innov correlated ! t ! i)) (W ! t ! i)) [0..<nstocks correlated])"
    by blast
  from W w have Wv: "W = [[Fin (2 / 3), Fin (1 / 3)]]"
    by simp
  from val have "rv ! 0 = Fin (4 / 3)"
    by (simp add: Wv correlated_def stored_def eval_nat_numeral)
  moreover from len have "length rv = 1"
    by (simp add: correlated_def stored_def)
  ultimately have "rv = [Fin (4 / 3)]"
    by (cases rv) simp_all
  with rv have "portf_rvar ref_solve correlated (Some ''minvar'') = Inr [Fin (4 / 3)]"
    by simp
  with a ne s w show ?thesis by blast
qed

section \<open>The loss ratio\<close>

text \<open>A quotient by zero is an infinity or a NaN, and stays one when 1 is subtracted.\<close>

lemma fdiv_zero_not_finite: "\<not> is_finite (fsub (fdiv a (Fin 0)) (Fin 1))"
  by (cases a) (simp_all add: fsub_def)

text \<open>
  C6. Whenever \<^verbatim>\<open>portf_rvar(kind)\<close> and \<^verbatim>\<open>portf_evar(kind)\<close> return, \<^verbatim>\<open>loss_var_ratio(kind)\<close>
  returns a sequence of the same length whose entry \<open>t\<close> is
  \<open>portf_rvar(kind)[t] / portf_evar(kind)[t] - 1\<close>. No divisor is tested: where
  \<open>portf_evar(kind)[t]\<close> is zero the call still returns, and that entry is an infinity or a
  NaN.
\<close>

theorem loss_var_ratio_entries:
  assumes "shape_ok r"
    and "portf_rvar solve r (Some kind) = Inr rv"
    and "portf_evar solve r (Some kind) = Inr ev"
  shows "\<exists>lv. loss_var_ratio solve r (Some kind) = Inr lv
    \<and> length lv = length rv \<and> length ev = length rv
    \<and> (\<forall>t<length lv. lv ! t = fsub (fdiv (rv ! t) (ev ! t)) (Fin 1)
          \<and> (ev ! t = Fin 0 \<longrightarrow> \<not> is_finite (lv ! t)))"
proof -
  from assms(1) have T: "length (hvar r) = length (innov r)"
    by (simp add: shape_ok_def)
  from assms(2) obtain w where w: "weights solve r (Some kind) = Inr w"
    by (auto simp: portf_rvar_def kind_arg_Some split: sum.splits)
  have len: "length ev = length rv"
  proof (cases w)
    case Empty1
    with w weights_Empty1 have "hvar r = []"
      by blast
    with T have "innov r = []"
      by simp
    with assms(2,3) w Empty1 \<open>hvar r = []\<close> show ?thesis
      by (auto simp: portf_rvar_def portf_evar_def kind_arg_Some mul_innov_def contract_hvar_def
          split: if_splits)
  next
    case (Array2 n rows)
    with assms(2,3) w T show ?thesis
      by (auto simp: portf_rvar_def portf_evar_def kind_arg_Some mul_innov_def contract_hvar_def
          split: if_splits)
  qed
  let ?lv = "map2 (\<lambda>a b. fsub (fdiv a b) (Fin 1)) rv ev"
  from assms(2,3) len have lv: "loss_var_ratio solve r (Some kind) = Inr ?lv"
    by (simp add: loss_var_ratio_def kind_arg_Some)
  have "\<forall>t<length ?lv. ?lv ! t = fsub (fdiv (rv ! t) (ev ! t)) (Fin 1)
          \<and> (ev ! t = Fin 0 \<longrightarrow> \<not> is_finite (?lv ! t))"
    using len by (simp add: fdiv_zero_not_finite)
  with lv len show ?thesis
    by (intro exI [of _ ?lv]) simp
qed


theorem loss_var_ratio_entries_witness:
  "shape_ok zero_variance
    \<and> portf_rvar ref_solve zero_variance (Some ''equal'') = Inr [Fin (3 / 2)]
    \<and> portf_evar ref_solve zero_variance (Some ''equal'') = Inr [Fin 0]
    \<and> loss_var_ratio ref_solve zero_variance (Some ''equal'') = Inr [PInf]"
proof -
  have a: "shape_ok zero_variance"
    by (simp add: shape_ok_def zero_variance_def stored_def)
  have w: "weights ref_solve zero_variance (Some ''equal'') = Inr (Array2 2 [[Fin (1 / 2), Fin (1 / 2)]])"
    by (simp add: weights_def kind_arg_Some weights_equal_def zero_variance_def stored_def)
  have rv: "portf_rvar ref_solve zero_variance (Some ''equal'') = Inr [Fin (3 / 2)]"
    by (simp add: portf_rvar_def kind_arg_Some w mul_innov_def)
      (simp add: zero_variance_def stored_def)
  have ev: "portf_evar ref_solve zero_variance (Some ''equal'') = Inr [Fin 0]"
    by (simp add: portf_evar_def kind_arg_Some w contract_hvar_def)
      (simp add: zero_variance_def stored_def evar_obs_def)
  from loss_var_ratio_entries [OF a rv ev]
  obtain lv where lv: "loss_var_ratio ref_solve zero_variance (Some ''equal'') = Inr lv"
    and len: "length lv = length [Fin (3 / 2)]"
    and val: "\<forall>t<length lv. lv ! t = fsub (fdiv ([Fin (3 / 2)] ! t) ([Fin 0] ! t)) (Fin 1)"
    by blast
  from len val have "lv ! 0 = PInf"
    by (simp add: fsub_def)
  with len have "lv = [PInf]"
    by (cases lv) simp_all
  with a rv ev lv show ?thesis by simp
qed

section \<open>Expected variance\<close>

lemma fsum_map_Fin: "fsum (map (\<lambda>x. Fin (f x)) xs) = Fin (sum_list (map f xs))"
  by (induction xs) auto

lemma sum_list_scaled:
  "sum_list (map (\<lambda>x. c * f x * c) xs) = sum_list (map f xs) * c * (c::real)"
  by (induction xs) (simp_all add: algebra_simps)

text \<open>
  What the contraction computes on finite weights: per asset \<open>i\<close>, the row sum of \<open>H\<close> times
  the square of \<open>w\<^sub>i\<close>. The weight \<open>w\<^sub>j\<close> of the column never enters.
\<close>

lemma evar_obs_finite:
  "evar_obs H (map Fin w) = Fin (sum_list (map2 (\<lambda>Hrow wi. sum_list Hrow * wi * wi) H w))"
proof -
  have "map2 (\<lambda>Hrow wi. fmul (fsum (map (\<lambda>h. fmul (Fin h) wi) Hrow)) wi) H (map Fin w)
      = map (\<lambda>p. Fin (sum_list (fst p) * snd p * snd p)) (zip H w)"
    by (simp add: zip_map2 fsum_map_Fin sum_list_mult_const o_def case_prod_unfold)
  then have "evar_obs H (map Fin w) = fsum (map (\<lambda>p. Fin (sum_list (fst p) * snd p * snd p)) (zip H w))"
    by (simp only: evar_obs_def)
  also have "\<dots> = Fin (sum_list (map (\<lambda>p. sum_list (fst p) * snd p * snd p) (zip H w)))"
    by (rule fsum_map_Fin)
  finally show ?thesis
    by (simp add: case_prod_unfold)
qed

text \<open>With one weight \<open>c\<close> for every asset the contraction and the quadratic form agree.\<close>

lemma evar_obs_uniform:
  assumes "length H = n"
  shows "evar_obs H (replicate n (Fin c)) = Fin (sum_list (map (\<lambda>Hrow. sum_list Hrow * c * c) H))"
proof -
  have "map2 (\<lambda>Hrow wi. fmul (fsum (map (\<lambda>h. fmul (Fin h) wi) Hrow)) wi) H (replicate n (Fin c))
      = map (\<lambda>Hrow. Fin (sum_list Hrow * c * c)) H"
    using assms by (simp add: zip_replicate2 fsum_map_Fin sum_list_mult_const o_def)
  then show ?thesis
    by (simp add: evar_obs_def fsum_map_Fin)
qed

lemma quad_form_uniform:
  assumes "length H = n" and "list_all (\<lambda>row. length row = n) H"
  shows "quad_form H (replicate n (Fin c)) = Fin (sum_list (map (\<lambda>Hrow. sum_list Hrow * c * c) H))"
proof -
  have inner: "fsum (map (\<lambda>j. fmul (fmul (replicate n (Fin c) ! i) (Fin (H ! i ! j))) (replicate n (Fin c) ! j)) [0..<n])
      = Fin (sum_list (H ! i) * c * c)" if "i < n" for i
  proof -
    from that assms have li: "length (H ! i) = n"
      by (simp add: list_all_length)
    have "map (\<lambda>j. fmul (fmul (replicate n (Fin c) ! i) (Fin (H ! i ! j))) (replicate n (Fin c) ! j)) [0..<n]
        = map (\<lambda>j. Fin (c * (H ! i ! j) * c)) [0..<n]"
      using that by (intro map_cong) simp_all
    then have "fsum (map (\<lambda>j. fmul (fmul (replicate n (Fin c) ! i) (Fin (H ! i ! j))) (replicate n (Fin c) ! j)) [0..<n])
        = Fin (sum_list (map (\<lambda>j. c * (H ! i ! j) * c) [0..<n]))"
      by (simp only: fsum_map_Fin)
    also have "sum_list (map (\<lambda>j. c * (H ! i ! j) * c) [0..<n]) = sum_list (map (\<lambda>j. H ! i ! j) [0..<n]) * c * c"
      by (rule sum_list_scaled)
    also have "sum_list (map (\<lambda>j. H ! i ! j) [0..<n]) = sum_list (H ! i)"
      using li map_nth [of "H ! i"] by simp
    finally show ?thesis .
  qed
  have "map (\<lambda>i. fsum (map (\<lambda>j. fmul (fmul (replicate n (Fin c) ! i) (Fin (H ! i ! j))) (replicate n (Fin c) ! j)) [0..<n])) [0..<n]
      = map (\<lambda>i. Fin (sum_list (H ! i) * c * c)) [0..<n]"
  proof (intro map_cong refl)
    fix i
    assume "i \<in> set [0..<n]"
    then have "i < n"
      by simp
    then show "fsum (map (\<lambda>j. fmul (fmul (replicate n (Fin c) ! i) (Fin (H ! i ! j))) (replicate n (Fin c) ! j)) [0..<n])
      = Fin (sum_list (H ! i) * c * c)"
      by (rule inner)
  qed
  then have "quad_form H (replicate n (Fin c)) = fsum (map (\<lambda>i. Fin (sum_list (H ! i) * c * c)) [0..<n])"
    by (simp only: quad_form_def length_replicate)
  also have "\<dots> = Fin (sum_list (map (\<lambda>i. sum_list (H ! i) * c * c) [0..<n]))"
    by (rule fsum_map_Fin)
  also have "map (\<lambda>i. sum_list (H ! i) * c * c) [0..<n] = map (\<lambda>Hrow. sum_list Hrow * c * c) (map (\<lambda>i. H ! i) [0..<n])"
    by (simp add: o_def)
  also have "map (\<lambda>i. H ! i) [0..<n] = H"
    using assms(1) map_nth [of H] by simp
  finally show ?thesis .
qed

text \<open>
  For the kind \<^verbatim>\<open>'equal'\<close> the claim C1 holds: \<^verbatim>\<open>portf_evar('equal')\<close> is the sequence of the
  quadratic forms \<open>w\<^sub>t\<^sup>T H\<^sub>t w\<^sub>t\<close>.
\<close>

lemma portf_evar_equal_quadratic:
  assumes "shape_ok r" and "0 < nstocks r"
  shows "portf_evar solve r (Some ''equal'') =
    Inr (map (\<lambda>H. quad_form H (replicate (nstocks r) (Fin (1 / real (nstocks r))))) (hvar r))"
proof -
  let ?c = "1 / real (nstocks r)"
  from assms(1) have inn: "list_all (\<lambda>row. length row = nstocks r) (innov r)"
    and T: "length (hvar r) = length (innov r)"
    and hv: "\<forall>H\<in>set (hvar r). length H = nstocks r \<and> list_all (\<lambda>row. length row = nstocks r) H"
    by (simp_all add: shape_ok_def list_all_iff)
  from weights_equal_uniform [OF assms(2) inn]
  have w: "weights solve r (Some ''equal'') =
      Inr (Array2 (nstocks r) (replicate (length (innov r)) (replicate (nstocks r) (Fin ?c))))" .
  have "map2 evar_obs (hvar r) (replicate (length (innov r)) (replicate (nstocks r) (Fin ?c)))
      = map (\<lambda>H. evar_obs H (replicate (nstocks r) (Fin ?c))) (hvar r)"
    using T by (simp add: zip_replicate2)
  also have "\<dots> = map (\<lambda>H. quad_form H (replicate (nstocks r) (Fin ?c))) (hvar r)"
    using hv by (intro map_cong) (simp_all add: evar_obs_uniform quad_form_uniform)
  finally show ?thesis
    using T by (simp add: portf_evar_def kind_arg_Some w contract_hvar_def)
qed

text \<open>
  C1 fails for the kind \<^verbatim>\<open>'minvar'\<close>. With \<^verbatim>\<open>innov = [[1, 2]]\<close> and
  \<^verbatim>\<open>hvar = [[[2, 1], [1, 3]]]\<close> the minimum-variance weights are \<open>[2/3, 1/3]\<close>;
  \<^verbatim>\<open>portf_evar('minvar')\<close> returns \<open>[16/9]\<close>, which is
  \<open>(2/3)\<^sup>2 \<sqdot> (2 + 1) + (1/3)\<^sup>2 \<sqdot> (1 + 3)\<close>, while the quadratic form \<open>w\<^sup>T H w\<close>, the
  variance of the portfolio, is \<open>5/3\<close>.
\<close>

theorem portf_evar_minvar_correlated:
  "weights ref_solve correlated (Some ''minvar'') = Inr (Array2 2 [[Fin (2 / 3), Fin (1 / 3)]])
    \<and> portf_evar ref_solve correlated (Some ''minvar'') = Inr [Fin (16 / 9)]
    \<and> quad_form (hvar correlated ! 0) [Fin (2 / 3), Fin (1 / 3)] = Fin (5 / 3)"
proof -
  have w: "weights ref_solve correlated (Some ''minvar'') = Inr (Array2 2 [[Fin (2 / 3), Fin (1 / 3)]])"
    using ref_solve_correlated
    by (simp add: weights_def kind_arg_Some weights_minvar_def correlated_def stored_def
        normalise_def np_array_def)
  have ev: "portf_evar ref_solve correlated (Some ''minvar'') = Inr [Fin (16 / 9)]"
    by (simp add: portf_evar_def kind_arg_Some w contract_hvar_def)
      (simp add: correlated_def stored_def evar_obs_def)
  have q: "quad_form (hvar correlated ! 0) [Fin (2 / 3), Fin (1 / 3)] = Fin (5 / 3)"
    by (simp add: quad_form_def correlated_def stored_def eval_nat_numeral)
  from w ev q show ?thesis by simp
qed

section \<open>Minimum-variance weights\<close>














section \<open>The reference solver returns solutions\<close>

text \<open>The pivot search splits the rows into the pivot row and the others.\<close>

lemma pick_pivot_parts:
  "pick_pivot rows = Some (p, others) \<Longrightarrow>
     set rows = insert p (set others) \<and> length rows = Suc (length others)"
proof (induction rows arbitrary: p others)
  case Nil
  then show ?case by simp
next
  case (Cons row rows)
  show ?case
  proof (cases "pick_pivot rows")
    case None
    with Cons.prems have "rows = []"
      by (cases rows) (auto split: option.splits prod.splits if_splits)
    with Cons.prems show ?thesis
      by simp
  next
    case (Some found)
    obtain best rest where found: "found = (best, rest)"
      by (cases found)
    from Cons.IH [of best rest] Some found
    have IH: "set rows = insert best (set rest)" "length rows = Suc (length rest)"
      by simp_all
    from Cons.prems Some found
    consider "p = best" "others = row # rest" | "p = row" "others = best # rest"
      by (auto split: if_splits)
    then show ?thesis
    proof cases
      case 1
      then show ?thesis
        by (simp add: IH insert_commute)
    next
      case 2
      then show ?thesis
        by (simp add: IH)
    qed
  qed
qed

lemma dot_Cons: "dot (a # u) (b # v) = a * b + dot u v"
  by (simp add: dot_def)

lemma dot_sub_scaled:
  "length u = length v \<Longrightarrow> length v = length xs \<Longrightarrow>
     dot (map2 (\<lambda>a b. a - f * b) u v) xs = dot u xs - f * dot v xs"
proof (induction u v xs rule: list_induct3)
  case Nil
  then show ?case by (simp add: dot_def)
next
  case (Cons a u b v c xs)
  then show ?case
    by (simp add: dot_Cons algebra_simps)
qed

text \<open>
  Elimination keeps the equations: what it returns for as many rows as unknowns satisfies
  every row.
\<close>

lemma gauss_sound:
  "gauss n rows = Inr xs \<Longrightarrow> length rows = n \<Longrightarrow> (\<forall>row\<in>set rows. length (fst row) = n) \<Longrightarrow>
     length xs = n \<and> (\<forall>row\<in>set rows. dot (fst row) xs = snd row)"
proof (induction n arbitrary: rows xs)
  case 0
  then show ?case by simp
next
  case (Suc n)
  from Suc.prems(1) obtain p others where pp: "pick_pivot rows = Some (p, others)"
    by (auto split: option.splits)
  from pick_pivot_parts [OF pp] have parts: "set rows = insert p (set others)"
    and len: "length rows = Suc (length others)"
    by simp_all
  from Suc.prems(1) pp have nz: "hd (fst p) \<noteq> 0"
    by (auto split: if_splits)
  with Suc.prems(1) pp obtain ys where ys: "gauss n (map (eliminate p) others) = Inr ys"
    and xs: "xs = (snd p - sum_list (map2 (*) (tl (fst p)) ys)) / hd (fst p) # ys"
    by (auto split: sum.splits)
  from Suc.prems(3) parts have lp: "length (fst p) = Suc n"
    and lo: "\<forall>row\<in>set others. length (fst row) = Suc n"
    by simp_all
  from lp obtain ph pt where p: "fst p = ph # pt" "length pt = n"
    by (cases "fst p") auto
  have "\<forall>row\<in>set (map (eliminate p) others). length (fst row) = n"
    using lo p by (auto simp: eliminate_def Let_def)
  moreover from len Suc.prems(2) have "length (map (eliminate p) others) = n"
    by simp
  ultimately have IH: "length ys = n" "\<forall>row\<in>set (map (eliminate p) others). dot (fst row) ys = snd row"
    using Suc.IH [OF ys] by simp_all
  let ?x0 = "(snd p - dot pt ys) / ph"
  from xs p have xs': "xs = ?x0 # ys"
    by (simp add: dot_def)
  from nz p have ph: "ph \<noteq> 0"
    by simp
  have pivot: "dot (fst p) xs = snd p"
    using ph by (simp add: xs' p dot_Cons)
  have other: "dot (fst row) xs = snd row" if "row \<in> set others" for row
  proof -
    from lo that obtain rh rt where row: "fst row = rh # rt" "length rt = n"
      by (cases "fst row") auto
    from IH(2) that have "dot (fst (eliminate p row)) ys = snd (eliminate p row)"
      by simp
    then have "dot (map2 (\<lambda>a b. a - rh / ph * b) rt pt) ys = snd row - rh / ph * snd p"
      by (simp add: eliminate_def Let_def row p)
    with dot_sub_scaled [of rt pt ys "rh / ph"] row(2) p(2) IH(1)
    have "dot rt ys - rh / ph * dot pt ys = snd row - rh / ph * snd p"
      by simp
    with ph show ?thesis
      by (simp add: xs' row dot_Cons field_simps)
  qed
  from IH(1) xs' pivot other parts show ?case
    by auto
qed

text \<open>Whatever the reference solver returns for \<open>a\<close> and \<open>b\<close> solves \<open>a x = b\<close>.\<close>

lemma ref_solve_sound:
  assumes "ref_solve a b = Inr x"
  shows "length x = length b \<and> mat_vec a x = b"
proof -
  from assms have lb: "length b = length a"
    and sq: "list_all (\<lambda>row. length row = length a) a"
    and g: "gauss (length a) (zip a b) = Inr x"
    by (auto simp: ref_solve_def split: if_splits)
  have "\<forall>row\<in>set (zip a b). length (fst row) = length a"
    using sq by (auto simp: list_all_iff dest: set_zip_leftD)
  with gauss_sound [OF g] lb
  have lx: "length x = length a" and eqs: "\<forall>row\<in>set (zip a b). dot (fst row) x = snd row"
    by simp_all
  have "mat_vec a x = b"
  proof (rule nth_equalityI)
    show "length (mat_vec a x) = length b"
      using lb by (simp add: mat_vec_def)
  next
    fix i
    assume "i < length (mat_vec a x)"
    then have i: "i < length a"
      by (simp add: mat_vec_def)
    with lb have "(a ! i, b ! i) \<in> set (zip a b)"
      by (auto simp: set_zip)
    with eqs have "dot (a ! i) x = b ! i"
      by fastforce
    with i show "mat_vec a x ! i = b ! i"
      by (simp add: mat_vec_def)
  qed
  with lx lb show ?thesis
    by simp
qed

section \<open>A singular matrix that the solver accepts\<close>

text \<open>Rounding evaluated: the exponent of a number between two powers of 2.\<close>

lemma pow2_powr: "pow2 k = 2 powr of_int k"
proof (cases "0 \<le> k")
  case True
  then have "2 powr of_int k = 2 powr real (nat k)"
    by simp
  also have "\<dots> = 2 ^ nat k"
    by (rule powr_realpow) simp
  finally show ?thesis
    using True by (simp add: pow2_def)
next
  case False
  then have "2 powr of_int k = 2 powr (- real (nat (- k)))"
    by simp
  also have "\<dots> = 1 / 2 powr real (nat (- k))"
    by (simp add: powr_minus_divide)
  also have "2 powr real (nat (- k)) = 2 ^ nat (- k)"
    by (rule powr_realpow) simp
  finally show ?thesis
    using False by (simp add: pow2_def)
qed

lemma floor_log2:
  assumes "pow2 k \<le> \<bar>x\<bar>" and "\<bar>x\<bar> < pow2 (k + 1)"
  shows "\<lfloor>log 2 \<bar>x\<bar>\<rfloor> = k"
proof -
  have pos: "0 < \<bar>x\<bar>"
    using assms(1) by (simp add: pow2_powr) (smt (verit) powr_gt_zero)
  have "of_int k \<le> log 2 \<bar>x\<bar>"
    using assms(1) pos by (simp add: pow2_powr le_log_iff)
  moreover have "log 2 \<bar>x\<bar> < of_int k + 1"
    using assms(2) pos by (simp add: pow2_powr log_less_iff add.commute)
  ultimately show ?thesis
    by (simp add: floor_unique)
qed

lemma round53_eval:
  assumes "pow2 k \<le> \<bar>x\<bar>" and "\<bar>x\<bar> < pow2 (k + 1)"
  shows "round53 x = of_int (rne (x / pow2 (k - 52))) * pow2 (k - 52)"
proof -
  have "0 < pow2 k"
    by (simp add: pow2_def)
  with assms(1) have "x \<noteq> 0"
    by auto
  with floor_log2 [OF assms] show ?thesis
    by (simp add: round53_def)
qed

text \<open>The operations of the factorisation and of the two solves on the matrix of 0.09.\<close>

lemma round53_reciprocal: "round53 (1 / d009) = 3127499741229511 / 281474976710656"
  using round53_eval [of 3 "1 / d009"]
  by (simp add: d009_def pow2_def rne_def Let_def)

lemma round53_multiplier: "round53 (d009 * 3127499741229511 / 281474976710656) = 9007199254740991 / 9007199254740992"
  using round53_eval [of "- 1" "d009 * 3127499741229511 / 281474976710656"]
  by (simp add: d009_def pow2_def rne_def Let_def)


lemma round53_product: "round53 (9007199254740991 * d009 / 9007199254740992) = 6485183463413513 / 72057594037927936"
  using round53_eval [of "- 4" "9007199254740991 * d009 / 9007199254740992"]
  by (simp add: d009_def pow2_def rne_def Let_def)

lemma round53_pivot: "round53 (d009 - 6485183463413513 / 72057594037927936) = 1 / 72057594037927936"
  using round53_eval [of "- 56" "d009 - 6485183463413513 / 72057594037927936"]
  by (simp add: d009_def pow2_def rne_def Let_def)

lemma round53_multiplier_exact: "round53 (9007199254740991 / 9007199254740992) = 9007199254740991 / 9007199254740992"
  using round53_eval [of "- 1" "9007199254740991 / 9007199254740992"]
  by (simp add: pow2_def rne_def Let_def)

lemma round53_rhs: "round53 (1 / 9007199254740992) = 1 / 9007199254740992"
  using round53_eval [of "- 53" "1 / 9007199254740992"]
  by (simp add: pow2_def rne_def Let_def)

lemma round53_eight: "round53 8 = 8"
  using round53_eval [of 3 8]
  by (simp add: pow2_def rne_def Let_def)

lemma round53_scaled: "round53 (d009 * 8) = 3242591731706757 / 4503599627370496"
  using round53_eval [of "- 1" "d009 * 8"]
  by (simp add: d009_def pow2_def rne_def Let_def)

lemma round53_difference: "round53 (1261007895663739 / 4503599627370496) = 1261007895663739 / 4503599627370496"
  using round53_eval [of "- 2" "1261007895663739 / 4503599627370496"]
  by (simp add: pow2_def rne_def Let_def)

lemma round53_quotient: "round53 (1261007895663739 / (4503599627370496 * d009)) = 3502799710177053 / 1125899906842624"
  using round53_eval [of 1 "1261007895663739 / (4503599627370496 * d009)"]
  by (simp add: d009_def pow2_def rne_def Let_def)

lemma double_solve_perfectly_correlated:
  "double_solve [[d009, d009], [d009, d009]] (ones 2) = Inr [3502799710177053 / 1125899906842624, 8]"
proof -
  have nz: "d009 \<noteq> 0"
    by (simp add: d009_def)
  have el: "eliminate53 ([d009, d009], 1) ([d009, d009], 1)
      = ([1 / 72057594037927936], 1 / 9007199254740992)"
    by (simp add: eliminate53_def Let_def round53_reciprocal round53_multiplier round53_product round53_pivot round53_multiplier_exact round53_rhs)
  have low: "gauss53 (Suc 0) [([1 / 72057594037927936], 1 / 9007199254740992)] = Inr [8]"
    by (simp add: round53_eight)
  have "gauss53 (Suc (Suc 0)) [([d009, d009], 1), ([d009, d009], 1)]
      = Inr [3502799710177053 / 1125899906842624, 8]"
    using nz by (simp add: el round53_eight round53_scaled round53_difference round53_quotient)
  then show ?thesis
    by (simp add: double_solve_def ones_def eval_nat_numeral)
qed


lemma singular_perfectly_correlated: "singular [[d009, d009], [d009, d009]]"
proof -
  have "length [1, - 1 :: real] = length [[d009, d009], [d009, d009]]
      \<and> [1, - 1 :: real] \<noteq> replicate (length [[d009, d009], [d009, d009]]) 0
      \<and> mat_vec [[d009, d009], [d009, d009]] [1, - 1] = replicate (length [[d009, d009], [d009, d009]]) 0"
    by (simp add: mat_vec_def dot_def eval_nat_numeral)
  then show ?thesis
    unfolding singular_def by blast
qed

text \<open>
  C8, as the claim states it, fails in double arithmetic. The matrix
  \<^verbatim>\<open>[[0.09, 0.09], [0.09, 0.09]]\<close> is singular, but the factorisation does not meet a zero
  pivot: the multiplier \<open>0.09 \<sqdot> (1 / 0.09)\<close> rounds to \<open>1 - 2\<^sup>-\<^sup>5\<^sup>3\<close> and leaves the pivot
  \<open>2\<^sup>-\<^sup>5\<^sup>6\<close>. The solve returns \<open>[3.11\<dots>, 8]\<close> and \<^verbatim>\<open>weights('minvar')\<close> returns
  \<open>[[0.28, 0.72]]\<close> instead of raising.
\<close>

theorem singular_matrix_returns_weights:
  "shape_ok perfectly_correlated
    \<and> singular (hvar perfectly_correlated ! 0)
    \<and> double_solve (hvar perfectly_correlated ! 0) (ones (nstocks perfectly_correlated))
        = Inr [3502799710177053 / 1125899906842624, 8]
    \<and> weights double_solve perfectly_correlated (Some ''minvar'')
        = Inr (Array2 2 [[Fin (3502799710177053 / 12509998964918045),
                          Fin (9007199254740992 / 12509998964918045)]])"
proof -
  have h: "hvar perfectly_correlated ! 0 = [[d009, d009], [d009, d009]]"
    and n: "nstocks perfectly_correlated = 2"
    and hv: "hvar perfectly_correlated = [[[d009, d009], [d009, d009]]]"
    by (simp_all add: perfectly_correlated_def stored_def)
  have a: "shape_ok perfectly_correlated"
    by (simp add: shape_ok_def perfectly_correlated_def stored_def)
  have b: "singular (hvar perfectly_correlated ! 0)"
    by (simp only: h singular_perfectly_correlated)
  have c: "double_solve (hvar perfectly_correlated ! 0) (ones (nstocks perfectly_correlated))
        = Inr [3502799710177053 / 1125899906842624, 8]"
    by (simp only: h n double_solve_perfectly_correlated)
  have "weights double_solve perfectly_correlated (Some ''minvar'')
        = Inr (Array2 2 [[Fin (3502799710177053 / 12509998964918045),
                          Fin (9007199254740992 / 12509998964918045)]])"
    using double_solve_perfectly_correlated
    by (simp add: weights_def kind_arg_Some weights_minvar_def hv n normalise_def np_array_def)
  with a b c show ?thesis
    by simp
qed

section \<open>Singular matrices in exact arithmetic\<close>

text \<open>The reference solver raises nothing but \<^verbatim>\<open>LinAlgError\<close>.\<close>

lemma gauss_error: "gauss n rows = Inl e \<Longrightarrow> e = LinAlgError"
proof (induction n arbitrary: rows)
  case 0
  then show ?case by simp
next
  case (Suc n)
  then show ?case
    by (auto split: option.splits if_splits sum.splits)
qed

text \<open>What elimination returns is the only solution of the rows.\<close>

lemma gauss_unique:
  "gauss n rows = Inr xs \<Longrightarrow> length rows = n \<Longrightarrow> (\<forall>row\<in>set rows. length (fst row) = n) \<Longrightarrow>
     length v = n \<Longrightarrow> (\<forall>row\<in>set rows. dot (fst row) v = snd row) \<Longrightarrow> v = xs"
proof (induction n arbitrary: rows xs v)
  case 0
  then show ?case by simp
next
  case (Suc n)
  from Suc.prems(1) obtain p others where pp: "pick_pivot rows = Some (p, others)"
    by (auto split: option.splits)
  from pick_pivot_parts [OF pp] have parts: "set rows = insert p (set others)"
    and len: "length rows = Suc (length others)"
    by simp_all
  from Suc.prems(1) pp have nz: "hd (fst p) \<noteq> 0"
    by (auto split: if_splits)
  with Suc.prems(1) pp obtain ys where ys: "gauss n (map (eliminate p) others) = Inr ys"
    and xs: "xs = (snd p - sum_list (map2 (*) (tl (fst p)) ys)) / hd (fst p) # ys"
    by (auto split: sum.splits)
  from Suc.prems(3) parts have lp: "length (fst p) = Suc n"
    and lo: "\<forall>row\<in>set others. length (fst row) = Suc n"
    by simp_all
  from lp obtain ph pt where p: "fst p = ph # pt" "length pt = n"
    by (cases "fst p") auto
  from nz p have ph: "ph \<noteq> 0"
    by simp
  from Suc.prems(4) obtain v0 vs where v: "v = v0 # vs" "length vs = n"
    by (cases v) auto
  from Suc.prems(5) parts have pv: "dot (fst p) v = snd p"
    by simp
  then have pv': "ph * v0 + dot pt vs = snd p"
    by (simp add: p v dot_Cons)
  have shapes: "\<forall>row\<in>set (map (eliminate p) others). length (fst row) = n"
    using lo p by (auto simp: eliminate_def Let_def)
  have lrows: "length (map (eliminate p) others) = n"
    using len Suc.prems(2) by simp
  have sat: "\<forall>row\<in>set (map (eliminate p) others). dot (fst row) vs = snd row"
  proof
    fix erow
    assume "erow \<in> set (map (eliminate p) others)"
    then obtain row where row: "row \<in> set others" "erow = eliminate p row"
      by auto
    from lo row(1) obtain rh rt where r: "fst row = rh # rt" "length rt = n"
      by (cases "fst row") auto
    from Suc.prems(5) parts row(1) have "dot (fst row) v = snd row"
      by simp
    then have rv: "rh * v0 + dot rt vs = snd row"
      by (simp add: r v dot_Cons)
    have "dot (fst erow) vs = dot rt vs - rh / ph * dot pt vs"
      using dot_sub_scaled [of rt pt vs "rh / ph"] r(2) p(2) v(2)
      by (simp add: row(2) eliminate_def Let_def r p)
    also have "\<dots> = (rh * v0 + dot rt vs) - rh / ph * (ph * v0 + dot pt vs)"
      using ph by (simp add: field_simps)
    also have "\<dots> = snd row - rh / ph * snd p"
      by (simp only: rv pv')
    finally show "dot (fst erow) vs = snd erow"
      by (simp add: row(2) eliminate_def Let_def r p)
  qed
  from Suc.IH [OF ys lrows shapes v(2) sat] have vs: "vs = ys" .
  from pv' ph have "v0 = (snd p - dot pt ys) / ph"
    by (simp add: vs field_simps)
  with xs p vs v show ?case
    by (simp add: dot_def)
qed

lemma dot_add: "length u = length v \<Longrightarrow> length v = length w \<Longrightarrow>
    dot u (map2 (+) v w) = dot u v + dot u w"
proof (induction u v w rule: list_induct3)
  case Nil
  then show ?case by (simp add: dot_def)
next
  case (Cons a u b v c w)
  then show ?case by (simp add: dot_Cons algebra_simps)
qed

lemma add_zero_vector:
  "length x = length v \<Longrightarrow> map2 (+) x v = x \<Longrightarrow> v = replicate (length v) (0::real)"
proof (induction x v rule: list_induct2)
  case Nil
  then show ?case by simp
next
  case (Cons a x b v)
  then show ?case by simp
qed

text \<open>
  A singular matrix has two solutions for a right-hand side or none, so the reference
  solver cannot return on it.
\<close>

lemma ref_solve_singular_fails:
  assumes "singular H"
  shows "ref_solve H b = Inl LinAlgError"
proof (cases "ref_solve H b")
  case (Inl e)
  then show ?thesis
    by (auto simp: ref_solve_def split: if_splits dest: gauss_error)
next
  case (Inr x)
  from ref_solve_sound [OF Inr] have lx: "length x = length b" and sol: "mat_vec H x = b"
    by simp_all
  from Inr have lb: "length b = length H"
    and sq: "list_all (\<lambda>row. length row = length H) H"
    and g: "gauss (length H) (zip H b) = Inr x"
    by (auto simp: ref_solve_def split: if_splits)
  from assms obtain v where v: "length v = length H" "v \<noteq> replicate (length H) 0"
    "mat_vec H v = replicate (length H) 0"
    unfolding singular_def by blast
  let ?u = "map2 (+) x v"
  have lu: "length ?u = length H"
    using lx lb v(1) by simp
  have rows: "\<forall>row\<in>set (zip H b). length (fst row) = length H"
    using sq by (auto simp: list_all_iff dest: set_zip_leftD)
  have "\<forall>row\<in>set (zip H b). dot (fst row) ?u = snd row"
  proof
    fix row
    assume "row \<in> set (zip H b)"
    then obtain i where i: "i < length H" "row = (H ! i, b ! i)"
      using lb by (auto simp: set_zip)
    with sq have lr: "length (H ! i) = length H"
      by (simp add: list_all_length)
    from sol i(1) have "dot (H ! i) x = b ! i"
      by (auto simp: mat_vec_def dest: arg_cong [where f = "\<lambda>l. l ! i"])
    moreover from v(3) i(1) have "dot (H ! i) v = 0"
      by (auto simp: mat_vec_def dest: arg_cong [where f = "\<lambda>l. l ! i"])
    ultimately show "dot (fst row) ?u = snd row"
      using dot_add [of "H ! i" x v] lr lx lb v(1) by (simp add: i(2))
  qed
  from gauss_unique [OF g _ rows lu this] lb have "?u = x"
    by simp
  with add_zero_vector [of x v] lx lb v(1) have "v = replicate (length H) 0"
    by simp
  with v(2) show ?thesis
    by simp
qed


lemma ref_solve_error: "ref_solve H b = Inl e \<Longrightarrow> e = LinAlgError"
  by (auto simp: ref_solve_def split: if_splits dest: gauss_error)

text \<open>
  With the solver in exact arithmetic the claim C8 holds as worded: a singular stored matrix
  makes \<^verbatim>\<open>weights('minvar')\<close> raise \<^verbatim>\<open>LinAlgError\<close>. It is the rounding of the doubles that
  lets a singular matrix through.
\<close>

lemma exact_singular_weights_fail:
  assumes "t < length (hvar r)" and "singular (hvar r ! t)"
  shows "weights ref_solve r (Some ''minvar'') = Inl LinAlgError"
proof -
  from ref_solve_singular_fails [OF assms(2)]
  have "ref_solve (hvar r ! t) (ones (nstocks r)) = Inl LinAlgError" .
  from minvar_loop_fails [where solve = ref_solve and out = "[]", OF assms(1) this]
  obtain s e' where "ref_solve (hvar r ! s) (ones (nstocks r)) = Inl e'"
    and "minvar_loop ref_solve (nstocks r) [] (hvar r) = Inl e'"
    by blast
  with ref_solve_error show ?thesis
    by (simp add: weights_def kind_arg_Some weights_minvar_def)
qed

end
